theory Spec2Isabelle
  imports Main "HOL-Library.AList" "HOL-Library.Multiset"
begin

section \<open>Strings of the host language\<close>

text \<open>
  A string is a list of code units; the model covers the code units below 0x100, which is
  the range the platform class \<open>Headers\<close> accepts in names and values. The functions
  below are the methods of \<open>String.prototype\<close> that the repository calls.
\<close>

definition js_ws :: "char \<Rightarrow> bool" where
  \<comment> \<open>white space and line terminators removed by \<open>trim()\<close>: TAB, LF, VT, FF, CR, SP, NBSP\<close>
  "js_ws c = (c \<in> set [CHR 0x09, CHR 0x0A, CHR 0x0B, CHR 0x0C, CHR 0x0D, CHR 0x20, CHR 0xA0])"

definition js_trim :: "string \<Rightarrow> string" where
  "js_trim s = rev (dropWhile js_ws (rev (dropWhile js_ws s)))"

fun js_split :: "char \<Rightarrow> string \<Rightarrow> string list" where
  \<comment> \<open>\<open>s.split(c)\<close> for a separator of one character; never returns the empty array\<close>
  "js_split c [] = [[]]"
| "js_split c (x # xs) =
     (if x = c then [] # js_split c xs
      else (case js_split c xs of [] \<Rightarrow> [[x]] | p # ps \<Rightarrow> (x # p) # ps))"

fun js_join :: "string \<Rightarrow> string list \<Rightarrow> string" where
  "js_join sep [] = []"
| "js_join sep [x] = x"
| "js_join sep (x # y # ys) = x @ sep @ js_join sep (y # ys)"

definition startsWith :: "string \<Rightarrow> string \<Rightarrow> bool" where
  \<comment> \<open>\<open>s.startsWith(p)\<close>, written \<open>startsWith p s\<close>\<close>
  "startsWith p s = (take (length p) s = p)"

definition lower_letters :: string where
  "lower_letters = ''abcdefghijklmnopqrstuvwxyz''"

definition upper_letters :: string where
  "upper_letters = ''ABCDEFGHIJKLMNOPQRSTUVWXYZ''"

definition lower_latin1 :: string where
  \<comment> \<open>U+00E0 .. U+00FE without the division sign U+00F7\<close>
  "lower_latin1 =
     [CHR 0xE0, CHR 0xE1, CHR 0xE2, CHR 0xE3, CHR 0xE4, CHR 0xE5, CHR 0xE6, CHR 0xE7,
      CHR 0xE8, CHR 0xE9, CHR 0xEA, CHR 0xEB, CHR 0xEC, CHR 0xED, CHR 0xEE, CHR 0xEF,
      CHR 0xF0, CHR 0xF1, CHR 0xF2, CHR 0xF3, CHR 0xF4, CHR 0xF5, CHR 0xF6,
      CHR 0xF8, CHR 0xF9, CHR 0xFA, CHR 0xFB, CHR 0xFC, CHR 0xFD, CHR 0xFE]"

definition upper_latin1 :: string where
  \<comment> \<open>U+00C0 .. U+00DE without the multiplication sign U+00D7\<close>
  "upper_latin1 =
     [CHR 0xC0, CHR 0xC1, CHR 0xC2, CHR 0xC3, CHR 0xC4, CHR 0xC5, CHR 0xC6, CHR 0xC7,
      CHR 0xC8, CHR 0xC9, CHR 0xCA, CHR 0xCB, CHR 0xCC, CHR 0xCD, CHR 0xCE, CHR 0xCF,
      CHR 0xD0, CHR 0xD1, CHR 0xD2, CHR 0xD3, CHR 0xD4, CHR 0xD5, CHR 0xD6,
      CHR 0xD8, CHR 0xD9, CHR 0xDA, CHR 0xDB, CHR 0xDC, CHR 0xDD, CHR 0xDE]"

definition upper_char :: "char \<Rightarrow> string" where
  \<comment> \<open>the upper-case form of one code unit: U+00DF (sharp s) becomes \<open>SS\<close>; U+00B5 and
      U+00FF, whose upper-case forms lie above 0xFF, are kept (neither they nor their
      upper-case forms can occur in a header name)\<close>
  "upper_char c =
     (case map_of (zip lower_letters upper_letters) c of
        Some u \<Rightarrow> [u]
      | None \<Rightarrow>
          if c = CHR 0xDF then ''SS''
          else (case map_of (zip lower_latin1 upper_latin1) c of Some u \<Rightarrow> [u] | None \<Rightarrow> [c]))"

definition toUpperCase :: "string \<Rightarrow> string" where
  "toUpperCase s = concat (map upper_char s)"

definition lower_char :: "char \<Rightarrow> char" where
  "lower_char c =
     (case map_of (zip upper_letters lower_letters) c of
        Some l \<Rightarrow> l
      | None \<Rightarrow> (case map_of (zip upper_latin1 lower_latin1) c of Some l \<Rightarrow> l | None \<Rightarrow> c))"

definition toLowerCase :: "string \<Rightarrow> string" where
  "toLowerCase s = map lower_char s"

fun digits_of :: "nat \<Rightarrow> nat \<Rightarrow> string" where
  \<comment> \<open>the decimal digits of \<open>n\<close>; the first argument bounds the number of digits\<close>
  "digits_of 0 n = []"
| "digits_of (Suc f) n =
     (if n < 10 then [''0123456789'' ! n]
      else digits_of f (n div 10) @ [''0123456789'' ! (n mod 10)])"

definition number_toString :: "int \<Rightarrow> string" where
  \<comment> \<open>\<open>Number.prototype.toString()\<close> on an integer\<close>
  "number_toString i =
     (if i < 0 then CHR ''-'' # digits_of (Suc (nat (- i))) (nat (- i))
      else digits_of (Suc (nat i)) (nat i))"

fun insert_by :: "('a \<Rightarrow> 'a \<Rightarrow> int) \<Rightarrow> 'a \<Rightarrow> 'a list \<Rightarrow> 'a list" where
  "insert_by cmp x [] = [x]"
| "insert_by cmp x (y # ys) = (if cmp x y \<le> 0 then x # y # ys else y # insert_by cmp x ys)"

definition sort_by :: "('a \<Rightarrow> 'a \<Rightarrow> int) \<Rightarrow> 'a list \<Rightarrow> 'a list" where
  \<comment> \<open>\<open>Array.prototype.sort(cmp)\<close>: the stable sort, an element going before the first
      later element it does not compare greater than\<close>
  "sort_by cmp xs = foldr (insert_by cmp) xs []"

fun compare_code_units :: "string \<Rightarrow> string \<Rightarrow> int" where
  \<comment> \<open>comparison of two strings by code units, the order of the operator \<open><\<close> on strings\<close>
  "compare_code_units [] [] = 0"
| "compare_code_units [] (y # ys) = - 1"
| "compare_code_units (x # xs) [] = 1"
| "compare_code_units (x # xs) (y # ys) =
     (if (of_char x :: nat) < of_char y then - 1
      else if (of_char y :: nat) < of_char x then 1
      else compare_code_units xs ys)"

section \<open>The platform class Headers\<close>

text \<open>
  \<open>Headers\<close> is the class of the Fetch standard that the runtime provides. An object
  holds one value for each name, the names in lower case; \<open>set\<close> strips the HTTP white
  space around the value and throws a \<open>TypeError\<close> when the name is not an HTTP token
  or the value contains NUL, CR or LF; iteration goes through the names in ascending order
  of their code units. The entries are kept in the order of their first insertion.
\<close>

type_synonym headers = "(string \<times> string) list"

datatype error =
    InvalidHeaderName string
  | InvalidHeaderValue string
  | InvalidWaitTime int
  | UnknownTarget string
  | SendError string
  | Tagged string error string

definition tchars :: string where
  \<comment> \<open>the characters of an HTTP token\<close>
  "tchars = lower_letters @ upper_letters @ ''0123456789'' @
       [CHR ''!'', CHR ''#'', CHR ''$'', CHR ''%'', CHR ''&'', CHR 0x27, CHR ''*'', CHR ''+'',
        CHR ''-'', CHR ''.'', CHR ''^'', CHR ''_'', CHR 0x60, CHR ''|'', CHR ''~'']"

definition tchar :: "char \<Rightarrow> bool" where
  "tchar c = (c \<in> set tchars)"

definition isValidHeaderName :: "string \<Rightarrow> bool" where
  "isValidHeaderName n = (n \<noteq> [] \<and> list_all tchar n)"

definition http_ws :: "char \<Rightarrow> bool" where
  "http_ws c = (c \<in> set [CHR 0x09, CHR 0x0A, CHR 0x0D, CHR 0x20])"

definition headerValueNormalize :: "string \<Rightarrow> string" where
  "headerValueNormalize s = rev (dropWhile http_ws (rev (dropWhile http_ws s)))"

definition isValidHeaderValue :: "string \<Rightarrow> bool" where
  "isValidHeaderValue v = list_all (\<lambda>c. c \<notin> set [CHR 0x00, CHR 0x0A, CHR 0x0D]) v"

definition Headers_set :: "string \<Rightarrow> string \<Rightarrow> headers \<Rightarrow> error + headers" where
  "Headers_set name val h =
     (let v = headerValueNormalize val in
      if \<not> isValidHeaderName name then Inl (InvalidHeaderName name)
      else if \<not> isValidHeaderValue v then Inl (InvalidHeaderValue v)
      else Inr (AList.update (toLowerCase name) v h))"

definition Headers_get :: "string \<Rightarrow> headers \<Rightarrow> string option" where
  \<comment> \<open>the callers in the repository pass the constants MAN, ST, NT and NTS, which are
      valid names; the \<open>TypeError\<close> for an invalid name does not arise there\<close>
  "Headers_get name h = map_of h (toLowerCase name)"

definition Headers_has :: "string \<Rightarrow> headers \<Rightarrow> bool" where
  "Headers_has name h = (map_of h (toLowerCase name) \<noteq> None)"

definition Headers_forEach :: "headers \<Rightarrow> (string \<times> string) list" where
  \<comment> \<open>the pairs in the order in which \<open>forEach\<close> visits them\<close>
  "Headers_forEach h = sort_by (\<lambda>a b. compare_code_units (fst a) (fst b)) h"

definition wf_headers :: "headers \<Rightarrow> bool" where
  \<comment> \<open>what every \<open>Headers\<close> object satisfies\<close>
  "wf_headers h =
     (distinct (map fst h) \<and>
      list_all (\<lambda>(k, v). isValidHeaderName k \<and> toLowerCase k = k \<and>
                         isValidHeaderValue v \<and> headerValueNormalize v = v) h)"

section \<open>Payloads (ssdp.ts)\<close>

datatype ssdp_method = M_SEARCH | NOTIFY | REPLY

definition method_text :: "ssdp_method \<Rightarrow> string" where
  "method_text m = (case m of M_SEARCH \<Rightarrow> ''m-search'' | NOTIFY \<Rightarrow> ''notify'' | REPLY \<Rightarrow> ''reply'')"

record payload =
  method_kind :: ssdp_method
  isReply :: bool
  headers :: headers

record search = payload +
  host :: string
  port :: nat

definition new_Search :: "string \<Rightarrow> nat \<Rightarrow> search" where
  "new_Search h p = \<lparr>method_kind = M_SEARCH, isReply = False, headers = [], host = h, port = p\<rparr>"

definition new_Notification :: payload where
  "new_Notification = \<lparr>method_kind = NOTIFY, isReply = False, headers = []\<rparr>"

definition new_Reply :: payload where
  "new_Reply = \<lparr>method_kind = REPLY, isReply = True, headers = []\<rparr>"

definition setHeader :: "string \<Rightarrow> string \<Rightarrow> 'a payload_scheme \<Rightarrow> error + 'a payload_scheme" where
  "setHeader key val p =
     (case Headers_set (toUpperCase (js_trim key)) (js_trim val) (headers p) of
        Inl e \<Rightarrow> Inl e
      | Inr h \<Rightarrow> Inr (p\<lparr>headers := h\<rparr>))"

definition hasHeader :: "string \<Rightarrow> 'a payload_scheme \<Rightarrow> bool" where
  "hasHeader key p = Headers_has (toUpperCase (js_trim key)) (headers p)"

definition getHeader :: "string \<Rightarrow> 'a payload_scheme \<Rightarrow> string option" where
  \<comment> \<open>\<open>this._headers.get(key) || undefined\<close>: an empty value reads as absent\<close>
  "getHeader key p =
     (case Headers_get (toUpperCase (js_trim key)) (headers p) of
        None \<Rightarrow> None
      | Some v \<Rightarrow> if v = [] then None else Some v)"

definition isByeBye :: "'a payload_scheme \<Rightarrow> bool" where
  "isByeBye p = (getHeader ''NTS'' p = Some ''ssdp:byebye'')"

definition isAlive :: "'a payload_scheme \<Rightarrow> bool" where
  "isAlive p = (getHeader ''NTS'' p = Some ''ssdp:alive'')"

definition isUpdate :: "'a payload_scheme \<Rightarrow> bool" where
  "isUpdate p = (getHeader ''NTS'' p = Some ''ssdp:update'')"

definition CRLF :: string where
  "CRLF = [CHR 0x0D, CHR 0x0A]"

definition first_line :: "ssdp_method \<Rightarrow> string" where
  \<comment> \<open>the \<open>switch\<close> of \<open>toString\<close>\<close>
  "first_line m =
     (case m of
        REPLY \<Rightarrow> ''HTTP/1.1 200 OK''
      | _ \<Rightarrow> toUpperCase (method_text m) @ '' * HTTP/1.1'')"

definition header_line :: "string \<times> string \<Rightarrow> string" where
  "header_line e = toUpperCase (fst e) @ '': '' @ snd e"

definition toString :: "(string \<Rightarrow> string \<Rightarrow> int) \<Rightarrow> 'a payload_scheme \<Rightarrow> string" where
  \<comment> \<open>the first argument is \<open>String.prototype.localeCompare\<close>, the collation of the
      runtime's locale\<close>
  "toString localeCompare p =
     js_join CRLF
       ([first_line (method_kind p)] @
        map header_line
          (sort_by (\<lambda>a b. localeCompare (fst a) (fst b)) (Headers_forEach (headers p))) @
        [CRLF])"

text \<open>
  \<open>String.prototype.localeCompare\<close> compares two strings by the collation of the default
  locale of the runtime. \<open>toString\<close> calls it on the names that \<open>forEach\<close> delivers, which
  are HTTP tokens in lower case. \<open>localeCompare\<close> below is that comparison under the root
  collation of the Unicode CLDR, which the English locales use: on such names the strings
  are compared character by character, a proper prefix going first, with the characters
  ranked as \<open>collation_order\<close> lists them (underscore, hyphen, exclamation mark, full stop,
  apostrophe, asterisk, ampersand, number sign, percent sign, grave accent, circumflex,
  plus sign, vertical bar, tilde, dollar sign, then the digits, then the letters). A
  locale whose collation is tailored may rank the letters otherwise. A character that
  cannot stand in such a name receives the rank after the letters.
\<close>

definition collation_order :: string where
  "collation_order =
     [CHR ''_'', CHR ''-'', CHR ''!'', CHR ''.'', CHR 0x27, CHR ''*'', CHR ''&'', CHR ''#'',
      CHR ''%'', CHR 0x60, CHR ''^'', CHR ''+'', CHR ''|'', CHR ''~'', CHR ''$''] @
     ''0123456789'' @ lower_letters"

fun index_of :: "'a \<Rightarrow> 'a list \<Rightarrow> nat" where
  \<comment> \<open>the position of the first occurrence, the length of the list when there is none\<close>
  "index_of x [] = 0"
| "index_of x (y # ys) = (if x = y then 0 else Suc (index_of x ys))"

definition collation_rank :: "char \<Rightarrow> nat" where
  "collation_rank c = index_of c collation_order"

fun localeCompare :: "string \<Rightarrow> string \<Rightarrow> int" where
  "localeCompare [] [] = 0"
| "localeCompare [] (y # ys) = - 1"
| "localeCompare (x # xs) [] = 1"
| "localeCompare (x # xs) (y # ys) =
     (if collation_rank x < collation_rank y then - 1
      else if collation_rank y < collation_rank x then 1
      else localeCompare xs ys)"

definition decode_line :: "string \<Rightarrow> headers \<Rightarrow> error + headers" where
  \<comment> \<open>the body of the loop of \<open>_decode\<close>\<close>
  "decode_line line h =
     (case map js_trim (js_split CHR '':'' line) of
        [] \<Rightarrow> Inr h
      | key # val \<Rightarrow>
          if key \<noteq> [] \<and> val \<noteq> []
          then Headers_set (toUpperCase key) (js_trim (js_join '':'' val)) h
          else Inr h)"

fun decode_lines :: "string list \<Rightarrow> headers \<Rightarrow> error + headers" where
  "decode_lines [] h = Inr h"
| "decode_lines (l # ls) h =
     (case decode_line l h of Inl e \<Rightarrow> Inl e | Inr h' \<Rightarrow> decode_lines ls h')"

definition Payload_decode :: "string \<Rightarrow> error + headers" where
  "Payload_decode text =
     decode_lines
       (filter (\<lambda>line. line \<noteq> []) (map js_trim (drop 1 (js_split CHR 0x0A text)))) []"

definition Search_decode :: "string \<Rightarrow> string \<Rightarrow> nat \<Rightarrow> error + search" where
  "Search_decode text h p =
     (case Payload_decode text of
        Inl e \<Rightarrow> Inl e
      | Inr hs \<Rightarrow> Inr ((new_Search h p)\<lparr>headers := hs\<rparr>))"

definition Notification_decode :: "string \<Rightarrow> error + payload" where
  "Notification_decode text =
     (case Payload_decode text of
        Inl e \<Rightarrow> Inl e
      | Inr hs \<Rightarrow> Inr (new_Notification\<lparr>headers := hs\<rparr>))"

definition Reply_decode :: "string \<Rightarrow> error + payload" where
  "Reply_decode text =
     (case Payload_decode text of
        Inl e \<Rightarrow> Inl e
      | Inr hs \<Rightarrow> Inr (new_Reply\<lparr>headers := hs\<rparr>))"

section \<open>The SSDP socket wrapper (ssdp.ts)\<close>

text \<open>
  A call of the host language ends in one of three ways: it throws to its caller, it
  returns a promise that is rejected, or it returns (a promise fulfilled with) a value.
  An \<open>async\<close> function never throws to its caller: an exception raised in its body
  rejects the promise it returns.
\<close>

datatype 'a completion = Thrown error | Rejected error | Fulfilled 'a

record outbound =
  message :: payload
  dstAddress :: "string option"
  dstPort :: "nat option"

definition as_payload :: "'a payload_scheme \<Rightarrow> payload" where
  "as_payload p = \<lparr>method_kind = method_kind p, isReply = isReply p, headers = headers p\<rparr>"

definition sendMessage :: "'a payload_scheme \<Rightarrow> string option \<Rightarrow> nat option \<Rightarrow> outbound" where
  \<comment> \<open>\<open>_sendMessage\<close>: the message and the destination handed to the multicast socket,
      which sends \<open>toBuffer()\<close> of the message\<close>
  "sendMessage m a p = \<lparr>message = as_payload m, dstAddress = a, dstPort = p\<rparr>"

datatype headers_init = HeadersObject headers | HeadersRecord "(string \<times> string) list"

definition Headers_append :: "string \<Rightarrow> string \<Rightarrow> headers \<Rightarrow> error + headers" where
  \<comment> \<open>the values of a repeated name are joined; the name \<open>set-cookie\<close>, whose values the
      platform keeps apart, is not set apart here\<close>
  "Headers_append name val h =
     (let v = headerValueNormalize val in
      if \<not> isValidHeaderName name then Inl (InvalidHeaderName name)
      else if \<not> isValidHeaderValue v then Inl (InvalidHeaderValue v)
      else (case map_of h (toLowerCase name) of
              None \<Rightarrow> Inr (AList.update (toLowerCase name) v h)
            | Some old \<Rightarrow> Inr (AList.update (toLowerCase name) (old @ '', '' @ v) h)))"

fun Headers_fill :: "(string \<times> string) list \<Rightarrow> headers \<Rightarrow> error + headers" where
  "Headers_fill [] h = Inr h"
| "Headers_fill ((k, v) # kvs) h =
     (case Headers_append k v h of Inl e \<Rightarrow> Inl e | Inr h' \<Rightarrow> Headers_fill kvs h')"

definition to_Headers :: "headers_init \<Rightarrow> error + headers" where
  \<comment> \<open>\<open>if (!(headers instanceof Headers)) headers = new Headers(headers)\<close>\<close>
  "to_Headers i = (case i of HeadersObject h \<Rightarrow> Inr h | HeadersRecord kvs \<Rightarrow> Headers_fill kvs [])"

fun setHeaders :: "(string \<times> string) list \<Rightarrow> 'a payload_scheme \<Rightarrow> error + 'a payload_scheme" where
  \<comment> \<open>a sequence of \<open>setHeader\<close> calls, in order, stopping at the first that throws\<close>
  "setHeaders [] m = Inr m"
| "setHeaders ((k, v) # kvs) m =
     (case setHeader k v m of Inl e \<Rightarrow> Inl e | Inr m' \<Rightarrow> setHeaders kvs m')"

definition discover_man :: string where
  \<comment> \<open>the thirteen characters of \<open>ssdp:discover\<close> between two double quotes\<close>
  "discover_man = [CHR 0x22] @ ''ssdp:discover'' @ [CHR 0x22]"

definition SSDP_search :: "string \<Rightarrow> int \<Rightarrow> headers_init \<Rightarrow> outbound completion" where
  "SSDP_search serviceType wait_time init =
     (if wait_time < 1 \<or> wait_time > 5 then Rejected (InvalidWaitTime wait_time)
      else
        (case to_Headers init of
           Inl e \<Rightarrow> Rejected e
         | Inr hs \<Rightarrow>
            (case setHeaders
                    (Headers_forEach hs @
                     [(''MAN'', discover_man),
                      (''HOST'', ''239.255.255.250:1900''),
                      (''ST'', serviceType),
                      (''MX'', number_toString wait_time)])
                    (new_Search ''239.255.255.250'' 1900) of
               Inl e \<Rightarrow> Rejected e
             | Inr m \<Rightarrow>
                (case (if \<not> hasHeader ''EXT'' m then setHeader ''EXT'' [] m else Inr m) of
                   Inl e \<Rightarrow> Rejected e
                 | Inr m' \<Rightarrow> Fulfilled (sendMessage m' None None)))))"

definition send_notification :: "string \<Rightarrow> string \<Rightarrow> headers_init \<Rightarrow> outbound completion" where
  \<comment> \<open>the common body of \<open>notify\<close>, \<open>update\<close> and \<open>bye\<close>, which differ in the NTS value\<close>
  "send_notification nts serviceType init =
     (case to_Headers init of
        Inl e \<Rightarrow> Rejected e
      | Inr hs \<Rightarrow>
         (case setHeaders
                 (Headers_forEach hs @
                  [(''HOST'', ''239.255.255.250:1900''), (''NT'', serviceType), (''NTS'', nts)])
                 new_Notification of
            Inl e \<Rightarrow> Rejected e
          | Inr m \<Rightarrow> Fulfilled (sendMessage m None None)))"

definition SSDP_notify :: "string \<Rightarrow> headers_init \<Rightarrow> outbound completion" where
  "SSDP_notify serviceType init = send_notification ''ssdp:alive'' serviceType init"

definition SSDP_update :: "string \<Rightarrow> headers_init \<Rightarrow> outbound completion" where
  "SSDP_update serviceType init = send_notification ''ssdp:update'' serviceType init"

definition SSDP_bye :: "string \<Rightarrow> headers_init \<Rightarrow> outbound completion" where
  "SSDP_bye serviceType init = send_notification ''ssdp:byebye'' serviceType init"

definition SSDP_reply :: "search \<Rightarrow> payload \<Rightarrow> outbound completion" where
  "SSDP_reply request response =
     Fulfilled (sendMessage response (Some (host request)) (Some (port request)))"

record endpoint =
  address :: string
  eport :: nat

datatype ssdp_event =
    OnSearch search endpoint endpoint bool
  | OnNotification payload endpoint endpoint bool
  | OnReply payload endpoint endpoint bool
  | OnError error

definition SSDP_on_message :: "string \<Rightarrow> endpoint \<Rightarrow> endpoint \<Rightarrow> bool \<Rightarrow> ssdp_event list" where
  \<comment> \<open>the listener of the socket's \<open>message\<close> event: the events the wrapper emits for one
      datagram (arguments in the order payload, local, remote, fromSelf)\<close>
  "SSDP_on_message text local remote fromSelf =
     (if startsWith ''M-SEARCH'' text then
        (case Search_decode text (address remote) (eport remote) of
           Inl e \<Rightarrow> [OnError (Tagged ''M-SEARCH'' e text)]
         | Inr p \<Rightarrow>
             if getHeader ''MAN'' p = Some discover_man \<and> hasHeader ''ST'' p
             then [OnSearch p local remote fromSelf] else [])
      else if startsWith ''NOTIFY'' text then
        (case Notification_decode text of
           Inl e \<Rightarrow> [OnError (Tagged ''NOTIFY'' e text)]
         | Inr p \<Rightarrow> [OnNotification p local remote fromSelf])
      else
        (case Reply_decode text of
           Inl e \<Rightarrow> [OnError (Tagged ''REPLY'' e text)]
         | Inr p \<Rightarrow> [OnReply p local remote fromSelf]))"

section \<open>The Advertiser\<close>

datatype adv_event = Search string search endpoint endpoint | AdvError error

record advertiser =
  uuid :: string
  services :: "(string \<times> headers) list"
  isDestroyed :: bool
  authenticationProvider :: "string \<Rightarrow> bool"
  transport :: "outbound \<Rightarrow> error list"
  sent :: "outbound list"
  emitted :: "adv_event list"
  unhandled :: "error list"
  released :: bool

text \<open>
  \<open>services\<close> is the \<open>Map\<close> of the source, in insertion order. \<open>transport\<close> is what
  the multicast socket answers to a send (its list of errors), \<open>sent\<close> the messages handed
  to it, \<open>emitted\<close> the events of the Advertiser, \<open>unhandled\<close> the rejections of promises
  nobody handles, and \<open>released\<close> is set once the timer and the socket are destroyed.
\<close>

definition settle :: "outbound completion \<Rightarrow> advertiser \<Rightarrow> advertiser" where
  \<comment> \<open>\<open>promise.then(errors => errors.forEach(error => this.emit('error', error)))\<close>\<close>
  "settle c a =
     (case c of
        Fulfilled ob \<Rightarrow>
          a\<lparr>sent := sent a @ [ob], emitted := emitted a @ map AdvError (transport a ob)\<rparr>
      | Rejected e \<Rightarrow> a\<lparr>unhandled := unhandled a @ [e]\<rparr>
      | Thrown e \<Rightarrow> a\<lparr>unhandled := unhandled a @ [e]\<rparr>)"

definition usn :: "string \<Rightarrow> string \<Rightarrow> string" where
  "usn u service = ''uuid:'' @ u @ ''::'' @ service"

fun Advertiser_notify ::
  "(string \<times> headers) list \<Rightarrow> advertiser \<Rightarrow> error option \<times> (string \<times> headers) list \<times> advertiser" where
  \<comment> \<open>\<open>notify(services)\<close>: the exception thrown if any, the entries with the headers as
      the loop has changed them, and the state\<close>
  "Advertiser_notify [] a = (None, [], a)"
| "Advertiser_notify ((service, hs) # rest) a =
     (case Headers_set ''USN'' (usn (uuid a) service) hs of
        Inl e \<Rightarrow> (Some e, (service, hs) # rest, a)
      | Inr hs' \<Rightarrow>
         (case Advertiser_notify rest (settle (SSDP_notify service (HeadersObject hs')) a) of
            (r, rest', a') \<Rightarrow> (r, (service, hs') # rest', a')))"

definition notify_root_devices :: "advertiser \<Rightarrow> advertiser" where
  "notify_root_devices a =
     (let a1 = settle (SSDP_notify ''upnp:rootdevice''
                         (HeadersRecord [(''USN'', usn (uuid a) ''upnp:rootdevice'')])) a
      in settle (SSDP_notify (''uuid:'' @ uuid a)
                   (HeadersRecord [(''USN'', ''uuid:'' @ uuid a)])) a1)"

definition announce :: "string \<Rightarrow> headers_init \<Rightarrow> advertiser \<Rightarrow> error + advertiser" where
  \<comment> \<open>\<open>Inl\<close>: the call throws, the state as it was. The table holds the header set by
      value, as the notification left it; a reference to the object kept by the caller
      is outside the model\<close>
  "announce service init a =
     (case to_Headers init of
        Inl e \<Rightarrow> Inl e
      | Inr hs \<Rightarrow>
          if map_of (services a) service = None then
            (case Advertiser_notify [(service, hs)] a of
               (Some e, _, _) \<Rightarrow> Inl e
             | (None, entries, a') \<Rightarrow>
                 Inr (a'\<lparr>services := AList.update service
                                      (case entries of (_, hs') # _ \<Rightarrow> hs' | [] \<Rightarrow> hs)
                                      (services a')\<rparr>))
          else Inr (a\<lparr>services := AList.update service hs (services a)\<rparr>))"

definition send_goodbye :: "string \<Rightarrow> advertiser \<Rightarrow> outbound completion" where
  "send_goodbye service a =
     SSDP_bye service (HeadersRecord [(''USN'', usn (uuid a) service)])"

definition withdraw :: "string \<Rightarrow> advertiser \<Rightarrow> bool \<times> advertiser" where
  "withdraw service a =
     (if map_of (services a) service \<noteq> None then
        (let a1 = a\<lparr>services := AList.delete service (services a)\<rparr>
         in (True, settle (send_goodbye service a1) a1))
      else (False, a))"

fun await_all :: "outbound completion list \<Rightarrow> error list \<Rightarrow> advertiser \<Rightarrow> advertiser" where
  \<comment> \<open>the awaits of \<open>send_goodbyes\<close>: the errors are collected and emitted at the end; a
      rejected send rejects \<open>send_goodbyes\<close>, and the errors collected so far are lost\<close>
  "await_all [] errors a = a\<lparr>emitted := emitted a @ map AdvError errors\<rparr>"
| "await_all (Fulfilled ob # cs) errors a =
     await_all cs (errors @ transport a ob) (a\<lparr>sent := sent a @ [ob]\<rparr>)"
| "await_all (Rejected e # cs) errors a = a\<lparr>unhandled := unhandled a @ [e]\<rparr>"
| "await_all (Thrown e # cs) errors a = a\<lparr>unhandled := unhandled a @ [e]\<rparr>"

definition send_goodbyes :: "advertiser \<Rightarrow> advertiser" where
  "send_goodbyes a =
     await_all
       ([SSDP_bye (''uuid:'' @ uuid a) (HeadersRecord [(''USN'', ''uuid:'' @ uuid a)]),
         SSDP_bye ''upnp:rootdevice'' (HeadersRecord [(''USN'', usn (uuid a) ''upnp:rootdevice'')])] @
        map (\<lambda>(service, _). send_goodbye service a) (services a))
       [] a"

definition destroy :: "advertiser \<Rightarrow> advertiser" where
  \<comment> \<open>taken as one step: a call made between the awaits of \<open>destroy\<close> is outside the model\<close>
  "destroy a =
     (if \<not> isDestroyed a then (send_goodbyes (a\<lparr>isDestroyed := True\<rparr>))\<lparr>released := True\<rparr>
      else a)"

definition announceNow :: "advertiser \<Rightarrow> error option \<times> advertiser" where
  \<comment> \<open>the exception thrown if any, and the state\<close>
  "announceNow a =
     (case Advertiser_notify (services a) (notify_root_devices a) of
        (r, entries, a') \<Rightarrow> (r, a'\<lparr>services := entries\<rparr>))"

definition build_reply :: "string \<Rightarrow> string \<Rightarrow> headers \<Rightarrow> error + payload" where
  \<comment> \<open>the body of the loop of \<open>reply\<close> up to the send\<close>
  "build_reply u service hs =
     setHeaders (Headers_forEach hs @ [(''ST'', service), (''USN'', usn u service)]) new_Reply"

fun Advertiser_reply :: "search \<Rightarrow> (string \<times> headers) list \<Rightarrow> advertiser \<Rightarrow> advertiser" where
  \<comment> \<open>\<open>reply(request, services)\<close>; an exception leaves through \<open>handle_payload\<close>, whose
      promise nobody handles\<close>
  "Advertiser_reply request [] a = a"
| "Advertiser_reply request ((service, hs) # rest) a =
     (case build_reply (uuid a) service hs of
        Inl e \<Rightarrow> a\<lparr>unhandled := unhandled a @ [e]\<rparr>
      | Inr r \<Rightarrow> Advertiser_reply request rest (settle (SSDP_reply request r) a))"

definition emit_search :: "string \<Rightarrow> search \<Rightarrow> endpoint \<Rightarrow> endpoint \<Rightarrow> advertiser \<Rightarrow> advertiser" where
  \<comment> \<open>\<open>this.emit('search', target, payload, remote, local)\<close>\<close>
  "emit_search target p remote local a = a\<lparr>emitted := emitted a @ [Search target p remote local]\<rparr>"

definition handle_payload :: "search \<Rightarrow> endpoint \<Rightarrow> endpoint \<Rightarrow> advertiser \<Rightarrow> advertiser" where
  \<comment> \<open>the state once the promise of \<open>handle_payload\<close> has settled; its boolean is dropped,
      as the listener drops it\<close>
  "handle_payload p local remote a =
     (let man = getHeader ''MAN'' p; target = getHeader ''ST'' p in
      if man \<noteq> Some discover_man \<or> target = None then a
      else if \<not> authenticationProvider a (address remote) then a
      else
        (case target of
           None \<Rightarrow> a
         | Some target \<Rightarrow>
             if target = ''ssdp:all'' then
               Advertiser_reply p (services a) (emit_search target p remote local a)
             else if target = ''upnp:rootdevice'' then
               Advertiser_reply p [(target, [])] (emit_search target p remote local a)
             else if target = ''uuid:'' @ uuid a then
               Advertiser_reply p [(target, [])] (emit_search target p remote local a)
             else
               (case map_of (services a) target of
                  Some service \<Rightarrow>
                    Advertiser_reply p [(target, service)] (emit_search target p remote local a)
                | None \<Rightarrow> a\<lparr>emitted := emitted a @ [AdvError (UnknownTarget target)]\<rparr>)))"

definition Advertiser_on_event :: "ssdp_event \<Rightarrow> advertiser \<Rightarrow> advertiser" where
  \<comment> \<open>the listeners the constructor puts on the socket wrapper\<close>
  "Advertiser_on_event ev a =
     (case ev of
        OnError e \<Rightarrow> a\<lparr>emitted := emitted a @ [AdvError e]\<rparr>
      | OnSearch p local remote fromSelf \<Rightarrow> handle_payload p local remote a
      | _ \<Rightarrow> a)"

definition Advertiser_receive :: "string \<Rightarrow> endpoint \<Rightarrow> endpoint \<Rightarrow> bool \<Rightarrow> advertiser \<Rightarrow> advertiser" where
  \<comment> \<open>one inbound datagram, through the wrapper and the listeners\<close>
  "Advertiser_receive text local remote fromSelf a =
     fold Advertiser_on_event (SSDP_on_message text local remote fromSelf) a"

section \<open>The Browser (browser.ts)\<close>

datatype browser_event =
    Discover string payload endpoint endpoint
  | Withdraw string payload endpoint endpoint
  | BrowserError error

record browser =
  searchTargets :: "string list"
  bemitted :: "browser_event list"

definition Browser_handle_payload ::
  "string \<Rightarrow> payload \<Rightarrow> endpoint \<Rightarrow> endpoint \<Rightarrow> browser \<Rightarrow> browser" where
  "Browser_handle_payload target p remote local b =
     (if target \<in> set (searchTargets b) then
        if isReply p then b\<lparr>bemitted := bemitted b @ [Discover target p remote local]\<rparr>
        else
          (let nts = getHeader ''NTS'' p in
           if nts = Some ''ssdp:alive'' \<or> nts = Some ''ssdp:update''
           then b\<lparr>bemitted := bemitted b @ [Discover target p remote local]\<rparr>
           else if nts = Some ''ssdp:byebye''
           then b\<lparr>bemitted := bemitted b @ [Withdraw target p remote local]\<rparr>
           else b)
      else b)"

definition Browser_on_event :: "ssdp_event \<Rightarrow> browser \<Rightarrow> browser" where
  \<comment> \<open>the listeners the constructor puts on the socket wrapper\<close>
  "Browser_on_event ev b =
     (case ev of
        OnError e \<Rightarrow> b\<lparr>bemitted := bemitted b @ [BrowserError e]\<rparr>
      | OnNotification p local remote fromSelf \<Rightarrow>
          (case getHeader ''NT'' p of
             Some target \<Rightarrow> Browser_handle_payload target p remote local b
           | None \<Rightarrow> b)
      | OnReply p local remote fromSelf \<Rightarrow>
          (case getHeader ''ST'' p of
             Some target \<Rightarrow> Browser_handle_payload target p remote local b
           | None \<Rightarrow> b)
      | OnSearch p local remote fromSelf \<Rightarrow> b)"

section \<open>Properties of header sets used in the statements\<close>

definition decoded :: "headers \<Rightarrow> bool" where
  \<comment> \<open>what the header set of every decoded payload satisfies\<close>
  "decoded h = (wf_headers h \<and> list_all (\<lambda>(k, v). js_trim v = v) h)"

definition put :: "string \<times> string \<Rightarrow> headers \<Rightarrow> headers" where
  \<comment> \<open>the change \<open>setHeader\<close> makes to a header set when it does not throw\<close>
  "put e h = AList.update (toLowerCase (fst e)) (js_trim (snd e)) h"

definition wf_entry :: "string \<times> string \<Rightarrow> bool" where
  \<comment> \<open>what every entry of a \<open>Headers\<close> object satisfies, for the encoding\<close>
  "wf_entry e = (isValidHeaderName (fst e) \<and> toLowerCase (fst e) = fst e \<and> isValidHeaderValue (snd e))"



section \<open>Encoding in the words of the specification\<close>


section \<open>Decoding in the words of the specification\<close>

definition colon_trim :: "string \<Rightarrow> string" where
  \<comment> \<open>the text with the white space around each of its colons and at both ends removed\<close>
  "colon_trim v = js_trim (js_join '':'' (map js_trim (js_split CHR '':'' v)))"

definition first_colon :: "string \<Rightarrow> (string \<times> string) option" where
  \<comment> \<open>the text before and the text after the first colon of a line\<close>
  "first_colon l =
     (if CHR '':'' \<in> set l
      then Some (takeWhile (\<lambda>c. c \<noteq> CHR '':'') l, drop 1 (dropWhile (\<lambda>c. c \<noteq> CHR '':'') l))
      else None)"

fun write_pairs :: "(string \<times> string) list \<Rightarrow> headers \<Rightarrow> error + headers" where
  \<comment> \<open>\<open>Headers.set\<close> for each pair in turn; a later pair overwrites an earlier one\<close>
  "write_pairs [] h = Inr h"
| "write_pairs ((k, v) # kvs) h =
     (case Headers_set k v h of Inl e \<Rightarrow> Inl e | Inr h' \<Rightarrow> write_pairs kvs h')"

definition body_lines :: "string \<Rightarrow> string list" where
  \<comment> \<open>the lines after the first, trimmed, without the blank ones\<close>
  "body_lines text = filter (\<lambda>line. line \<noteq> []) (map js_trim (drop 1 (js_split CHR 0x0A text)))"

definition claimed_pair :: "string \<Rightarrow> (string \<times> string) option" where
  \<comment> \<open>the pair of a line in the words of the specification: split on the first colon, trim
      both parts, uppercase the key\<close>
  "claimed_pair l =
     (case first_colon l of
        None \<Rightarrow> None
      | Some (k, v) \<Rightarrow> if js_trim k = [] then None else Some (toUpperCase (js_trim k), js_trim v))"

definition decode_claimed :: "string \<Rightarrow> error + headers" where
  "decode_claimed text = write_pairs (List.map_filter claimed_pair (body_lines text)) []"

definition amended_pair :: "string \<Rightarrow> (string \<times> string) option" where
  \<comment> \<open>the pair of a line as the code forms it: the value also loses the white space around
      each of its colons\<close>
  "amended_pair l =
     (case first_colon l of
        None \<Rightarrow> None
      | Some (k, v) \<Rightarrow> if js_trim k = [] then None else Some (toUpperCase (js_trim k), colon_trim v))"

definition decode_amended :: "string \<Rightarrow> error + headers" where
  "decode_amended text = write_pairs (List.map_filter amended_pair (body_lines text)) []"

section \<open>Inputs used to exercise the theorems\<close>

definition ep_local :: endpoint where
  "ep_local = \<lparr>address = ''192.168.1.10'', eport = 1900\<rparr>"

definition ep_remote :: endpoint where
  "ep_remote = \<lparr>address = ''192.168.1.20'', eport = 50000\<rparr>"

definition adv0 :: advertiser where
  \<comment> \<open>an Advertiser with uuid \<open>U1\<close> and an empty Service Table\<close>
  "adv0 = \<lparr>uuid = ''U1'', services = [], isDestroyed = False,
            authenticationProvider = (\<lambda>ip. True), transport = (\<lambda>ob. []),
            sent = [], emitted = [], unhandled = [], released = False\<rparr>"

definition browser1 :: browser where
  \<comment> \<open>a Browser subscribed to \<open>urn:test:1\<close>\<close>
  "browser1 = \<lparr>searchTargets = [''urn:test:1''], bemitted = []\<rparr>"

definition notification_of :: "string \<Rightarrow> string \<Rightarrow> payload" where
  \<comment> \<open>a decoded Notification with the given NT and NTS\<close>
  "notification_of nt nts = new_Notification\<lparr>headers := [(''nt'', nt), (''nts'', nts)]\<rparr>"

definition reply_of :: "string \<Rightarrow> payload" where
  \<comment> \<open>a decoded Reply with the given ST\<close>
  "reply_of st = new_Reply\<lparr>headers := [(''st'', st)]\<rparr>"

definition search_text :: "string \<Rightarrow> string \<Rightarrow> string" where
  \<comment> \<open>the datagram of a search with the given MAN and ST\<close>
  "search_text man st =
     ''M-SEARCH * HTTP/1.1'' @ CRLF @ ''MAN: '' @ man @ CRLF @ ''ST: '' @ st @ CRLF @ CRLF"

definition adv1 :: advertiser where
  \<comment> \<open>the Advertiser \<open>adv0\<close> holding \<open>urn:test:1\<close> with one extra header\<close>
  "adv1 = adv0\<lparr>services := [(''urn:test:1'', [(''location'', ''http://192.168.1.10/d.xml'')])]\<rparr>"

definition adv_root :: advertiser where
  \<comment> \<open>the Advertiser \<open>adv0\<close> holding \<open>upnp:rootdevice\<close> with one extra header\<close>
  "adv_root = adv0\<lparr>services := [(''upnp:rootdevice'', [(''location'', ''http://192.168.1.10/d.xml'')])]\<rparr>"

definition reply_to_remote :: "headers \<Rightarrow> outbound" where
  \<comment> \<open>a Reply with the given headers, addressed to \<open>ep_remote\<close>\<close>
  "reply_to_remote hs = \<lparr>message = new_Reply\<lparr>headers := hs\<rparr>,
      dstAddress = Some ''192.168.1.20'', dstPort = Some 50000\<rparr>"

definition decoded_search :: "string \<Rightarrow> search" where
  \<comment> \<open>what \<open>search_text discover_man st\<close> decodes to when it comes from \<open>ep_remote\<close>\<close>
  "decoded_search st = (new_Search ''192.168.1.20'' 50000)\<lparr>headers := [(''man'', discover_man), (''st'', st)]\<rparr>"

definition example_reply :: payload where
  \<comment> \<open>a Reply whose headers were set in the order ST, LOCATION\<close>
  "example_reply = new_Reply\<lparr>headers := [(''st'', ''urn:test:1''), (''location'', ''http://192.168.1.10/d.xml'')]\<rparr>"

definition spaced_colon_text :: string where
  \<comment> \<open>a notification with a header value that has spaces around a colon\<close>
  "spaced_colon_text = ''NOTIFY * HTTP/1.1'' @ CRLF @ ''SERVER: a : b'' @ CRLF @ CRLF"

definition spaced_reply :: payload where
  \<comment> \<open>a Reply with one header whose value has spaces around a colon\<close>
  "spaced_reply = new_Reply\<lparr>headers := [(''server'', ''a : b'')]\<rparr>"

definition adv_all :: advertiser where
  \<comment> \<open>the Advertiser \<open>adv0\<close> holding \<open>urn:test:1\<close> and an entry named \<open>ssdp:all\<close>\<close>
  "adv_all = adv0\<lparr>services := [(''urn:test:1'', [(''location'', ''http://192.168.1.10/d.xml'')]),
                                 (''ssdp:all'', [])]\<rparr>"



section \<open>Facts about the string functions and the header sets\<close>

lemma strip_set: "set (rev (dropWhile P (rev (dropWhile P s)))) \<subseteq> set s"
  by (metis set_dropWhileD set_rev subsetI)

lemma strip_ends:
  assumes "t = rev (dropWhile P (rev (dropWhile P s)))" "t \<noteq> []"
  shows "\<not> P (hd t) \<and> \<not> P (last t)"
proof -
  let ?u = "dropWhile P s"
  let ?w = "dropWhile P (rev ?u)"
  have w: "?w \<noteq> []" using assms by simp
  have u: "?u \<noteq> []"
  proof
    assume "?u = []"
    then have "?w = []" by (metis dropWhile.simps(1) rev.simps(1))
    with w show False by blast
  qed
  have 1: "\<not> P (hd ?w)" using w by (simp add: hd_dropWhile)
  have 2: "\<not> P (hd ?u)" using u by (simp add: hd_dropWhile)
  have "last ?w = last (rev ?u)" using w
    by (metis takeWhile_dropWhile_id last_appendR)
  then have 3: "last ?w = hd ?u" using u by (simp add: last_rev)
  have "hd t = last ?w" using assms w by (simp add: hd_rev)
  moreover have "last t = hd ?w" using assms w by (simp add: last_rev)
  ultimately show ?thesis using 1 2 3 by simp
qed

lemma strip_id:
  assumes "t = [] \<or> (\<not> Q (hd t) \<and> \<not> Q (last t))"
  shows "rev (dropWhile Q (rev (dropWhile Q t))) = t"
proof (cases "t = []")
  case True then show ?thesis by simp
next
  case False
  with assms have h: "\<not> Q (hd t)" and l: "\<not> Q (last t)" by auto
  from False h have 1: "dropWhile Q t = t" by (cases t) auto
  from False l have 2: "dropWhile Q (rev t) = rev t"
    by (cases "rev t") (auto simp: last_rev hd_rev dest: arg_cong[where f=hd])
  show ?thesis by (simp add: 1 2)
qed

lemma js_trim_set: "set (js_trim s) \<subseteq> set s"
  unfolding js_trim_def by (rule strip_set)

lemma normalize_set: "set (headerValueNormalize s) \<subseteq> set s"
  unfolding headerValueNormalize_def by (rule strip_set)

lemma http_ws_js_ws: "http_ws c \<Longrightarrow> js_ws c"
  by (auto simp: http_ws_def js_ws_def)

lemma js_trim_ends: "js_trim s \<noteq> [] \<Longrightarrow> \<not> js_ws (hd (js_trim s)) \<and> \<not> js_ws (last (js_trim s))"
  using strip_ends[of "js_trim s" js_ws s] by (simp add: js_trim_def)

lemma js_trim_id: "s = [] \<or> (\<not> js_ws (hd s) \<and> \<not> js_ws (last s)) \<Longrightarrow> js_trim s = s"
  unfolding js_trim_def by (rule strip_id)

lemma js_trim_idem: "js_trim (js_trim s) = js_trim s"
  using js_trim_ends[of s] js_trim_id[of "js_trim s"] by blast

lemma normalize_js_trim: "headerValueNormalize (js_trim s) = js_trim s"
  unfolding headerValueNormalize_def
  using js_trim_ends[of s] http_ws_js_ws by (intro strip_id) blast

lemma valid_js_trim: "isValidHeaderValue s \<Longrightarrow> isValidHeaderValue (js_trim s)"
  using js_trim_set[of s] by (auto simp: isValidHeaderValue_def list_all_iff)

lemma valid_normalize: "isValidHeaderValue s \<Longrightarrow> isValidHeaderValue (headerValueNormalize s)"
  using normalize_set[of s] by (auto simp: isValidHeaderValue_def list_all_iff)

lemma valid_append: "isValidHeaderValue (s @ t) = (isValidHeaderValue s \<and> isValidHeaderValue t)"
  by (simp add: isValidHeaderValue_def)

lemma tchars_all:
  "list_all (\<lambda>c. \<not> js_ws c \<and> c \<noteq> CHR '':'' \<and> c \<noteq> CHR 0x0A \<and>
      tchar (lower_char c) \<and> lower_char (lower_char c) = lower_char c \<and>
      (case upper_char c of
         [u] \<Rightarrow> tchar u \<and> lower_char u = lower_char c
       | _ \<Rightarrow> False)) tchars"
  by code_simp

lemma tchar_cases:
  "tchar c \<Longrightarrow> \<not> js_ws c \<and> c \<noteq> CHR '':'' \<and> c \<noteq> CHR 0x0A \<and>
     tchar (lower_char c) \<and> lower_char (lower_char c) = lower_char c \<and>
     (\<exists>u. upper_char c = [u] \<and> tchar u \<and> lower_char u = lower_char c)"
  using tchars_all unfolding list_all_iff tchar_def
  by (fastforce split: list.splits)

lemma toUpperCase_token:
  "list_all tchar k \<Longrightarrow>
     list_all tchar (toUpperCase k) \<and> toLowerCase (toUpperCase k) = toLowerCase k \<and>
     length (toUpperCase k) = length k"
proof (induction k)
  case Nil
  then show ?case by (simp add: toUpperCase_def toLowerCase_def)
next
  case (Cons c k)
  then obtain u where "upper_char c = [u]" "tchar u" "lower_char u = lower_char c"
    using tchar_cases by fastforce
  with Cons show ?case by (simp add: toUpperCase_def toLowerCase_def)
qed

lemma toLowerCase_token:
  "list_all tchar k \<Longrightarrow>
     list_all tchar (toLowerCase k) \<and> toLowerCase (toLowerCase k) = toLowerCase k"
  by (induction k) (auto simp: toLowerCase_def dest: tchar_cases)

lemma name_upper: "isValidHeaderName k \<Longrightarrow> isValidHeaderName (toUpperCase k)"
  using toUpperCase_token[of k] by (auto simp: isValidHeaderName_def)

lemma name_trim: "isValidHeaderName k \<Longrightarrow> js_trim k = k"
proof -
  assume v: "isValidHeaderName k"
  then have "k \<noteq> []" "tchar (hd k)" "tchar (last k)"
    by (auto simp: isValidHeaderName_def list_all_iff)
  then show ?thesis using tchar_cases by (intro js_trim_id) blast
qed

lemma Headers_set_ok:
  "isValidHeaderName k \<Longrightarrow> isValidHeaderValue (headerValueNormalize v) \<Longrightarrow>
     Headers_set k v h = Inr (AList.update (toLowerCase k) (headerValueNormalize v) h)"
  by (simp add: Headers_set_def Let_def)

lemma setHeader_ok:
  assumes "isValidHeaderName k" "isValidHeaderValue v"
  shows "setHeader k v m = Inr (m\<lparr>headers := AList.update (toLowerCase k) (js_trim v) (headers m)\<rparr>)"
proof -
  have 1: "js_trim k = k" using assms(1) by (rule name_trim)
  have 2: "isValidHeaderName (toUpperCase k)" using assms(1) by (rule name_upper)
  have 3: "toLowerCase (toUpperCase k) = toLowerCase k"
    using assms(1) toUpperCase_token[of k] by (simp add: isValidHeaderName_def)
  have 4: "isValidHeaderValue (headerValueNormalize (js_trim v))"
    using assms(2) by (simp add: normalize_js_trim valid_js_trim)
  show ?thesis
    by (simp add: setHeader_def 1 3 Headers_set_ok[OF 2 4] normalize_js_trim)
qed

lemma const_names:
  "isValidHeaderName ''USN''" "toLowerCase ''USN'' = ''usn''"
  "isValidHeaderName ''HOST''" "toLowerCase ''HOST'' = ''host''"
  "isValidHeaderName ''NT''" "toLowerCase ''NT'' = ''nt''"
  "isValidHeaderName ''NTS''" "toLowerCase ''NTS'' = ''nts''"
  "isValidHeaderName ''ST''" "toLowerCase ''ST'' = ''st''"
  "isValidHeaderName ''MAN''" "toLowerCase ''MAN'' = ''man''"
  "isValidHeaderName ''MX''" "toLowerCase ''MX'' = ''mx''"
  "isValidHeaderName ''EXT''" "toLowerCase ''EXT'' = ''ext''"
  "isValidHeaderName ''usn''" "toLowerCase ''usn'' = ''usn''"
  by code_simp+

lemma const_lookup:
  "toLowerCase (toUpperCase (js_trim ''ST'')) = ''st''"
  "toLowerCase (toUpperCase (js_trim ''MAN'')) = ''man''"
  "toLowerCase (toUpperCase (js_trim ''NT'')) = ''nt''"
  "toLowerCase (toUpperCase (js_trim ''NTS'')) = ''nts''"
  "toLowerCase (toUpperCase (js_trim ''EXT'')) = ''ext''"
  by code_simp+

lemma const_values:
  "js_trim ''239.255.255.250:1900'' = ''239.255.255.250:1900''"
  "js_trim ''ssdp:byebye'' = ''ssdp:byebye''"
  "js_trim ''ssdp:alive'' = ''ssdp:alive''"
  "js_trim ''ssdp:update'' = ''ssdp:update''"
  "js_trim ''upnp:rootdevice'' = ''upnp:rootdevice''"
  "js_trim discover_man = discover_man"
  "isValidHeaderValue ''239.255.255.250:1900''"
  "isValidHeaderValue ''ssdp:byebye''"
  "isValidHeaderValue ''ssdp:alive''"
  "isValidHeaderValue ''ssdp:update''"
  "isValidHeaderValue ''upnp:rootdevice''"
  "isValidHeaderValue discover_man"
  "isValidHeaderValue ''uuid:''"
  "isValidHeaderValue ''::''"
  by code_simp+

lemma getHeader_conv:
  "getHeader ''ST'' p = (case map_of (headers p) ''st'' of None \<Rightarrow> None | Some v \<Rightarrow> if v = [] then None else Some v)"
  "getHeader ''MAN'' p = (case map_of (headers p) ''man'' of None \<Rightarrow> None | Some v \<Rightarrow> if v = [] then None else Some v)"
  "getHeader ''NT'' p = (case map_of (headers p) ''nt'' of None \<Rightarrow> None | Some v \<Rightarrow> if v = [] then None else Some v)"
  "getHeader ''NTS'' p = (case map_of (headers p) ''nts'' of None \<Rightarrow> None | Some v \<Rightarrow> if v = [] then None else Some v)"
  by (simp_all add: getHeader_def Headers_get_def const_lookup)

lemma valid_usn:
  "isValidHeaderValue u \<Longrightarrow> isValidHeaderValue s \<Longrightarrow> isValidHeaderValue (usn u s)"
  by (simp add: usn_def isValidHeaderValue_def)

lemma strip_decompose:
  "\<exists>w1 w2. s = w1 @ rev (dropWhile P (rev (dropWhile P s))) @ w2 \<and> list_all P w1 \<and> list_all P w2"
proof -
  define u where "u = dropWhile P s"
  define t where "t = rev (dropWhile P (rev u))"
  define w1 where "w1 = takeWhile P s"
  define w2 where "w2 = rev (takeWhile P (rev u))"
  have "rev (rev u) = rev (takeWhile P (rev u) @ dropWhile P (rev u))"
    by (simp only: takeWhile_dropWhile_id)
  then have 2: "u = t @ w2"
    unfolding t_def w2_def by (simp only: rev_rev_ident rev_append)
  have 3: "list_all P w1"
    unfolding list_all_iff w1_def using set_takeWhileD by fast
  have 4: "list_all P w2"
    unfolding list_all_iff w2_def set_rev using set_takeWhileD by fast
  have 1: "s = w1 @ u" unfolding w1_def u_def by (simp only: takeWhile_dropWhile_id)
  have "s = w1 @ t @ w2" using 1 2 by blast
  with 3 4 show ?thesis unfolding t_def u_def by blast
qed

lemma js_trim_ws_left: "list_all js_ws w \<Longrightarrow> js_trim (w @ s) = js_trim s"
  by (simp add: js_trim_def list_all_iff dropWhile_append2)

lemma js_trim_empty_iff: "js_trim s = [] \<longleftrightarrow> list_all js_ws s"
proof
  assume "js_trim s = []"
  then have a: "\<forall>x \<in> set (dropWhile js_ws s). js_ws x"
    by (simp add: js_trim_def dropWhile_eq_Nil_conv)
  have "dropWhile js_ws s = []"
  proof (rule ccontr)
    assume n: "dropWhile js_ws s \<noteq> []"
    then have "\<not> js_ws (hd (dropWhile js_ws s))" by (simp add: hd_dropWhile)
    moreover have "hd (dropWhile js_ws s) \<in> set (dropWhile js_ws s)" using n by simp
    ultimately show False using a by blast
  qed
  then show "list_all js_ws s" by (simp add: list_all_iff dropWhile_eq_Nil_conv)
next
  assume "list_all js_ws s"
  then have "dropWhile js_ws s = []" by (simp add: list_all_iff)
  then have "rev (dropWhile js_ws (rev (dropWhile js_ws s))) = rev (dropWhile js_ws (rev []))"
    by (rule arg_cong)
  then show "js_trim s = []" by (simp add: js_trim_def)
qed

lemma js_trim_ws_right: "list_all js_ws w \<Longrightarrow> js_trim (s @ w) = js_trim s"
proof (cases "list_all js_ws s")
  case True
  assume "list_all js_ws w"
  with True have "list_all js_ws (s @ w)" by simp
  with True show ?thesis using js_trim_empty_iff by metis
next
  case False
  assume w: "list_all js_ws w"
  from False obtain x where x: "x \<in> set s" "\<not> js_ws x" by (auto simp: list_all_iff)
  then have 1: "dropWhile js_ws (s @ w) = dropWhile js_ws s @ w"
    by (simp add: dropWhile_append1)
  have "\<And>x. x \<in> set (rev w) \<Longrightarrow> js_ws x" using w by (simp add: list_all_iff)
  then have 2: "dropWhile js_ws (rev w @ rev (dropWhile js_ws s)) = dropWhile js_ws (rev (dropWhile js_ws s))"
    by (rule dropWhile_append2)
  show ?thesis by (simp add: js_trim_def 1 2)
qed

lemma js_trim_normalize: "js_trim (headerValueNormalize s) = js_trim s"
proof -
  obtain w1 w2 where d: "s = w1 @ headerValueNormalize s @ w2" "list_all http_ws w1" "list_all http_ws w2"
    using strip_decompose[of s http_ws] unfolding headerValueNormalize_def by blast
  then have "list_all js_ws w1" "list_all js_ws w2"
    using http_ws_js_ws by (auto simp: list_all_iff)
  then have "js_trim (w1 @ headerValueNormalize s @ w2) = js_trim (headerValueNormalize s)"
    by (metis js_trim_ws_left js_trim_ws_right append.assoc)
  with d(1) show ?thesis by simp
qed

lemma js_trim_decompose:
  "\<exists>w1 w2. s = w1 @ js_trim s @ w2 \<and> list_all js_ws w1 \<and> list_all js_ws w2"
  using strip_decompose[of s js_ws] unfolding js_trim_def by blast

lemma js_split_nonempty: "js_split c s \<noteq> []"
proof (induction s)
  case Nil
  show ?case by simp
next
  case (Cons x s)
  then show ?case by (cases "js_split c s") simp_all
qed

lemma js_split_eq: "js_split c (c # xs) = [] # js_split c xs"
  by simp

lemma js_split_neq:
  "x \<noteq> c \<Longrightarrow> js_split c (x # xs) = (x # hd (js_split c xs)) # tl (js_split c xs)"
  using js_split_nonempty[of c xs] by (cases "js_split c xs") simp_all

lemma js_split_sep: "c \<notin> set x \<Longrightarrow> js_split c (x @ c # r) = x # js_split c r"
proof (induction x)
  case Nil
  show ?case by (simp only: append_Nil js_split_eq)
next
  case (Cons a x)
  then have "a \<noteq> c" and ih: "js_split c (x @ c # r) = x # js_split c r" by auto
  then show ?case by (simp add: js_split_neq del: js_split.simps)
qed

lemma js_split_none: "c \<notin> set x \<Longrightarrow> js_split c x = [x]"
proof (induction x)
  case Nil
  show ?case by simp
next
  case (Cons a x)
  then have "a \<noteq> c" and ih: "js_split c x = [x]" by auto
  then show ?case by (simp add: js_split_neq del: js_split.simps)
qed

lemma js_split_left:
  "c \<notin> set w \<Longrightarrow> js_split c (w @ s) = (w @ hd (js_split c s)) # tl (js_split c s)"
proof (induction w)
  case Nil
  show ?case using js_split_nonempty[of c s] by simp
next
  case (Cons a w)
  then have "a \<noteq> c"
    and ih: "js_split c (w @ s) = (w @ hd (js_split c s)) # tl (js_split c s)" by auto
  then show ?case by (simp add: js_split_neq del: js_split.simps)
qed

lemma js_split_right:
  "c \<notin> set w \<Longrightarrow> js_split c (s @ w) = butlast (js_split c s) @ [last (js_split c s) @ w]"
proof (induction s)
  case Nil
  then show ?case by (simp add: js_split_none)
next
  case (Cons x s)
  then have ih: "js_split c (s @ w) = butlast (js_split c s) @ [last (js_split c s) @ w]"
    by simp
  obtain q qs where q: "js_split c s = q # qs"
    using js_split_nonempty[of c s] by (cases "js_split c s") auto
  show ?case
  proof (cases "x = c")
    case True
    have "js_split c ((x # s) @ w) = [] # js_split c (s @ w)"
      using True by (simp only: append_Cons js_split_eq)
    moreover have "js_split c (x # s) = [] # q # qs"
      using True q by (simp only: js_split_eq)
    ultimately show ?thesis using ih q by simp
  next
    case False
    have 1: "js_split c ((x # s) @ w) = (x # hd (js_split c (s @ w))) # tl (js_split c (s @ w))"
      using False by (simp add: js_split_neq del: js_split.simps)
    have 2: "js_split c (x # s) = (x # q) # qs"
      using False q by (simp add: js_split_neq del: js_split.simps)
    show ?thesis
    proof (cases qs)
      case Nil
      with ih q have "js_split c (s @ w) = [q @ w]" by simp
      with 1 2 Nil show ?thesis by simp
    next
      case (Cons r rs)
      with ih q have "js_split c (s @ w) = q # butlast (r # rs) @ [last (r # rs) @ w]" by simp
      with 1 2 Cons show ?thesis by simp
    qed
  qed
qed

lemma js_split_set: "p \<in> set (js_split c s) \<Longrightarrow> set p \<subseteq> set s"
proof (induction s arbitrary: p)
  case Nil
  then show ?case by simp
next
  case (Cons x s)
  obtain q qs where q: "js_split c s = q # qs"
    using js_split_nonempty[of c s] by (cases "js_split c s") auto
  have iq: "set q \<subseteq> set s" using Cons.IH[of q] q by simp
  have iqs: "\<And>r. r \<in> set qs \<Longrightarrow> set r \<subseteq> set s" using Cons.IH q by simp
  show ?case
  proof (cases "x = c")
    case True
    with Cons.prems q have "p = [] \<or> p = q \<or> p \<in> set qs" by simp
    then show ?thesis using iq iqs by auto
  next
    case False
    have "js_split c (x # s) = (x # q) # qs"
      using False q by (simp add: js_split_neq del: js_split.simps)
    with Cons.prems have "p = x # q \<or> p \<in> set qs" by (simp del: js_split.simps)
    then show ?thesis using iq iqs by auto
  qed
qed

lemma js_join_set: "set (js_join sep ps) \<subseteq> set sep \<union> (\<Union>p \<in> set ps. set p)"
  by (induction sep ps rule: js_join.induct) auto

lemma js_join_Cons: "ys \<noteq> [] \<Longrightarrow> js_join sep (x # ys) = x @ sep @ js_join sep ys"
  by (cases ys) auto

lemma trim_split_ws:
  assumes "list_all js_ws w1" "list_all js_ws w2" "\<not> js_ws c"
  shows "map js_trim (js_split c (w1 @ s @ w2)) = map js_trim (js_split c s)"
proof -
  have c1: "c \<notin> set w1" and c2: "c \<notin> set w2" using assms by (auto simp: list_all_iff)
  have r: "map js_trim (js_split c (s @ w2)) = map js_trim (js_split c s)"
  proof -
    have "js_split c (s @ w2) = butlast (js_split c s) @ [last (js_split c s) @ w2]"
      using c2 by (rule js_split_right)
    then have "map js_trim (js_split c (s @ w2)) =
        map js_trim (butlast (js_split c s)) @ [js_trim (last (js_split c s))]"
      using assms(2) by (simp add: js_trim_ws_right)
    also have "\<dots> = map js_trim (butlast (js_split c s) @ [last (js_split c s)])" by simp
    also have "\<dots> = map js_trim (js_split c s)"
      using js_split_nonempty[of c s] by simp
    finally show ?thesis .
  qed
  have "js_split c (w1 @ (s @ w2)) = (w1 @ hd (js_split c (s @ w2))) # tl (js_split c (s @ w2))"
    using c1 by (rule js_split_left)
  then have "map js_trim (js_split c (w1 @ (s @ w2))) =
      js_trim (hd (js_split c (s @ w2))) # map js_trim (tl (js_split c (s @ w2)))"
    using assms(1) by (simp add: js_trim_ws_left)
  also have "\<dots> = map js_trim (hd (js_split c (s @ w2)) # tl (js_split c (s @ w2)))" by simp
  also have "\<dots> = map js_trim (js_split c (s @ w2))"
    using js_split_nonempty[of c "s @ w2"] by simp
  finally show ?thesis using r by simp
qed

lemma trim_split_trim:
  "\<not> js_ws c \<Longrightarrow> map js_trim (js_split c (js_trim s)) = map js_trim (js_split c s)"
proof -
  assume c: "\<not> js_ws c"
  obtain w1 w2 where d: "s = w1 @ js_trim s @ w2" "list_all js_ws w1" "list_all js_ws w2"
    using js_trim_decompose by blast
  have "map js_trim (js_split c (w1 @ js_trim s @ w2)) = map js_trim (js_split c (js_trim s))"
    using d(2,3) c by (rule trim_split_ws)
  with d(1) show ?thesis by simp
qed

lemma forEach_Nil: "Headers_forEach [] = []"
  by (simp add: Headers_forEach_def sort_by_def)

lemma forEach_single: "Headers_forEach [e] = [e]"
  by (simp add: Headers_forEach_def sort_by_def)

lemma as_payload_id: "as_payload (p :: payload) = p"
  by (cases p) (simp add: as_payload_def)

lemma notification_ok:
  assumes "isValidHeaderValue x" "isValidHeaderValue S" "isValidHeaderValue nts"
  shows "send_notification nts S (HeadersRecord [(''USN'', x)]) =
     Fulfilled \<lparr>message = new_Notification\<lparr>headers :=
                   [(''usn'', js_trim x), (''host'', ''239.255.255.250:1900''),
                    (''nt'', js_trim S), (''nts'', js_trim nts)]\<rparr>,
                dstAddress = None, dstPort = None\<rparr>"
proof -
  have 1: "to_Headers (HeadersRecord [(''USN'', x)]) = Inr [(''usn'', headerValueNormalize x)]"
    using assms(1)
    by (simp add: to_Headers_def Headers_append_def Let_def const_names valid_normalize)
  have 2: "setHeaders [(''usn'', headerValueNormalize x), (''HOST'', ''239.255.255.250:1900''),
                       (''NT'', S), (''NTS'', nts)] new_Notification =
      Inr (new_Notification\<lparr>headers :=
                   [(''usn'', js_trim x), (''host'', ''239.255.255.250:1900''),
                    (''nt'', js_trim S), (''nts'', js_trim nts)]\<rparr>)"
    using assms
    by (simp add: setHeader_ok const_names const_values valid_normalize js_trim_normalize
          new_Notification_def)
  show ?thesis
    by (simp add: send_notification_def 1 forEach_single 2 sendMessage_def as_payload_id
          del: setHeaders.simps)
qed

lemma settle_flag: "settle c (a\<lparr>isDestroyed := d\<rparr>) = (settle c a)\<lparr>isDestroyed := d\<rparr>"
  by (simp add: settle_def split: completion.splits)

lemma notify_flag:
  "Advertiser_notify es (a\<lparr>isDestroyed := d\<rparr>) =
     (case Advertiser_notify es a of (r, es', a') \<Rightarrow> (r, es', a'\<lparr>isDestroyed := d\<rparr>))"
proof (induction es arbitrary: a)
  case Nil
  show ?case by simp
next
  case (Cons e es)
  obtain service hs where e: "e = (service, hs)" by (cases e)
  show ?case
    by (simp add: e Cons.IH settle_flag split: sum.splits prod.splits)
qed

lemma await_all_flag: "isDestroyed (await_all cs errs a) = isDestroyed a"
  by (induction cs errs a rule: await_all.induct) simp_all

lemma destroy_idem:
  "isDestroyed (destroy a) \<and> destroy (destroy a) = destroy a \<and>
   (isDestroyed a \<longrightarrow> destroy a = a)"
proof -
  have 1: "isDestroyed (destroy a)"
    by (simp add: destroy_def send_goodbyes_def await_all_flag)
  then have 2: "destroy (destroy a) = destroy a"
    by (simp add: destroy_def [of "destroy a"])
  show ?thesis using 1 2 by (simp add: destroy_def)
qed

lemma ops_ignore_flag:
  "announce S i (a\<lparr>isDestroyed := d\<rparr>) = map_sum id (\<lambda>a'. a'\<lparr>isDestroyed := d\<rparr>) (announce S i a) \<and>
   withdraw S (a\<lparr>isDestroyed := d\<rparr>) = apsnd (\<lambda>a'. a'\<lparr>isDestroyed := d\<rparr>) (withdraw S a) \<and>
   announceNow (a\<lparr>isDestroyed := d\<rparr>) = apsnd (\<lambda>a'. a'\<lparr>isDestroyed := d\<rparr>) (announceNow a)"
proof -
  have n: "notify_root_devices (a\<lparr>isDestroyed := d\<rparr>) = (notify_root_devices a)\<lparr>isDestroyed := d\<rparr>"
    by (simp add: notify_root_devices_def Let_def settle_flag)
  have s: "\<And>c. services (settle c a) = services a"
    by (simp add: settle_def split: completion.splits)
  have "services (notify_root_devices a) = services a"
    by (simp add: notify_root_devices_def Let_def settle_def split: completion.splits)
  then have 3: "announceNow (a\<lparr>isDestroyed := d\<rparr>) = apsnd (\<lambda>a'. a'\<lparr>isDestroyed := d\<rparr>) (announceNow a)"
    by (simp add: announceNow_def n notify_flag split: prod.splits)
  have 2: "withdraw S (a\<lparr>isDestroyed := d\<rparr>) = apsnd (\<lambda>a'. a'\<lparr>isDestroyed := d\<rparr>) (withdraw S a)"
    by (simp add: withdraw_def Let_def send_goodbye_def settle_def split: completion.splits)
  have 1: "announce S i (a\<lparr>isDestroyed := d\<rparr>) = map_sum id (\<lambda>a'. a'\<lparr>isDestroyed := d\<rparr>) (announce S i a)"
    by (simp add: announce_def settle_flag [symmetric] settle_def
          split: sum.splits prod.splits option.splits list.splits completion.splits)
  from 1 2 3 show ?thesis by blast
qed

lemma update_set: "set (AList.update k v al) \<subseteq> insert (k, v) (set al)"
  by (induction al) auto

lemma decoded_update:
  assumes "decoded h" "isValidHeaderName k"  "isValidHeaderValue (js_trim x)"
  shows "decoded (AList.update (toLowerCase k) (js_trim x) h)"
proof -
  have k: "isValidHeaderName (toLowerCase k)" "toLowerCase (toLowerCase k) = toLowerCase k"
    using assms(2) toLowerCase_token [of k] by (auto simp: isValidHeaderName_def toLowerCase_def)
  have v: "headerValueNormalize (js_trim x) = js_trim x" "js_trim (js_trim x) = js_trim x"
    by (simp_all add: normalize_js_trim js_trim_idem)
  have d: "distinct (map fst (AList.update (toLowerCase k) (js_trim x) h))"
    using assms(1) by (simp add: decoded_def wf_headers_def distinct_update)
  show ?thesis
    using assms(1,3) k v d update_set [of "toLowerCase k" "js_trim x" h]
    unfolding decoded_def wf_headers_def list_all_iff by auto
qed

lemma decode_line_decoded:
  assumes "decoded h" "decode_line l h = Inr h'"
  shows "decoded h'"
proof (cases "map js_trim (js_split CHR '':'' l)")
  case Nil
  with assms show ?thesis by (simp add: decode_line_def)
next
  case (Cons key val)
  show ?thesis
  proof (cases "key \<noteq> [] \<and> val \<noteq> []")
    case False
    with assms Cons show ?thesis by (auto simp add: decode_line_def)
  next
    case True
    let ?v = "js_trim (js_join '':'' val)"
    from assms(2) Cons True have s: "Headers_set (toUpperCase key) ?v h = Inr h'"
      by (simp add: decode_line_def)
    then have n: "isValidHeaderName (toUpperCase key)"
      and vv: "isValidHeaderValue (headerValueNormalize ?v)"
      and h': "h' = AList.update (toLowerCase (toUpperCase key)) (headerValueNormalize ?v) h"
      by (auto simp add: Headers_set_def Let_def split: if_splits)
    from vv h' have "isValidHeaderValue ?v" "h' = AList.update (toLowerCase (toUpperCase key)) ?v h"
      by (simp_all add: normalize_js_trim)
    with assms(1) n show ?thesis using decoded_update by blast
  qed
qed

lemma decode_lines_decoded:
  "decoded h \<Longrightarrow> decode_lines ls h = Inr h' \<Longrightarrow> decoded h'"
proof (induction ls arbitrary: h)
  case Nil
  then show ?case by simp
next
  case (Cons l ls)
  then show ?case by (auto split: sum.splits dest: decode_line_decoded)
qed

lemma Payload_decode_decoded: "Payload_decode text = Inr hs \<Longrightarrow> decoded hs"
  unfolding Payload_decode_def
  by (rule decode_lines_decoded [of "[]"]) (simp_all add: decoded_def wf_headers_def)

lemma decoded_value:
  assumes "decoded hs" "map_of hs k = Some v"
  shows "js_trim v = v \<and> isValidHeaderValue v"
proof -
  from assms(2) have "(k, v) \<in> set hs" by (rule map_of_SomeD)
  with assms(1) show ?thesis by (auto simp: decoded_def wf_headers_def list_all_iff)
qed

lemma js_trim_usn:
  assumes "t \<noteq> []" "js_trim t = t"
  shows "js_trim (usn u t) = usn u t"
proof -
  have "\<not> js_ws (last t)" using assms js_trim_ends [of t] by simp
  moreover have "last (usn u t) = last t" using assms(1) by (simp add: usn_def)
  moreover have "hd (usn u t) = CHR ''u''" by (simp add: usn_def)
  moreover have "\<not> js_ws CHR ''u''" by (simp add: js_ws_def)
  ultimately show ?thesis by (intro js_trim_id) simp
qed

lemma build_reply_empty:
  assumes "isValidHeaderValue u" "isValidHeaderValue t" "t \<noteq> []" "js_trim t = t"
  shows "build_reply u t [] = Inr (new_Reply\<lparr>headers := [(''st'', t), (''usn'', usn u t)]\<rparr>)"
  using assms
  by (simp add: build_reply_def forEach_Nil setHeader_ok const_names valid_usn js_trim_usn
        new_Reply_def)

lemma get_has: "getHeader k p = Some v \<Longrightarrow> hasHeader k p"
  by (auto simp add: hasHeader_def getHeader_def Headers_has_def Headers_get_def split: option.splits)

lemma Search_decode_fields:
  assumes "Search_decode text h n = Inr p"
  shows "host p = h \<and> port p = n \<and> decoded (headers p)"
proof -
  from assms obtain hs where hs: "Payload_decode text = Inr hs"
    and p: "p = (new_Search h n)\<lparr>headers := hs\<rparr>"
    by (auto simp add: Search_decode_def split: sum.splits)
  from hs have "decoded hs" by (rule Payload_decode_decoded)
  with p show ?thesis by (simp add: new_Search_def)
qed

lemma decoded_target:
  assumes "decoded (headers p)" "getHeader ''ST'' p = Some t"
  shows "t \<noteq> [] \<and> js_trim t = t \<and> isValidHeaderValue t"
proof -
  from assms(2) have "map_of (headers p) ''st'' = Some t" "t \<noteq> []"
    by (auto simp add: getHeader_conv split: option.splits if_splits)
  with assms(1) show ?thesis using decoded_value by blast
qed

lemma reply_single:
  assumes "build_reply (uuid a) t hs = Inr r"
  shows "Advertiser_reply p [(t, hs)] (emit_search t p remote local a) =
     a\<lparr>sent := sent a @ [\<lparr>message = r, dstAddress = Some (host p), dstPort = Some (port p)\<rparr>],
       emitted := emitted a @ Search t p remote local #
          map AdvError (transport a \<lparr>message = r, dstAddress = Some (host p), dstPort = Some (port p)\<rparr>)\<rparr>"
  using assms
  by (simp add: emit_search_def settle_def SSDP_reply_def sendMessage_def as_payload_id)

lemma insert_by_mset: "mset (insert_by c x xs) = add_mset x (mset xs)"
  by (induction xs) simp_all

lemma sort_by_mset: "mset (sort_by c xs) = mset xs"
  by (induction xs) (simp_all add: sort_by_def insert_by_mset)

lemma sort_by_set: "set (sort_by c xs) = set xs"
  using sort_by_mset [of c xs] by (metis set_mset_mset)

lemma sort_by_distinct_fst: "distinct (map fst (sort_by c xs)) = distinct (map fst xs)"
proof -
  have "mset (map fst (sort_by c xs)) = mset (map fst xs)"
    by (simp add: sort_by_mset)
  then show ?thesis by (metis mset_eq_imp_distinct_iff)
qed

lemma forEach_set: "set (Headers_forEach h) = set h"
  by (simp add: Headers_forEach_def sort_by_set)

lemma forEach_distinct: "distinct (map fst (Headers_forEach h)) = distinct (map fst h)"
  by (simp add: Headers_forEach_def sort_by_distinct_fst)

lemma setHeaders_append:
  "setHeaders (xs @ ys) m = (case setHeaders xs m of Inl e \<Rightarrow> Inl e | Inr m' \<Rightarrow> setHeaders ys m')"
proof (induction xs arbitrary: m)
  case Nil
  show ?case by simp
next
  case (Cons x xs)
  obtain k v where x: "x = (k, v)" by (cases x)
  show ?case by (simp add: x Cons.IH split: sum.splits)
qed

lemma setHeaders_ok:
  "list_all (\<lambda>(k, v). isValidHeaderName k \<and> isValidHeaderValue v) kvs \<Longrightarrow>
     setHeaders kvs m = Inr (m\<lparr>headers := fold put kvs (headers m)\<rparr>)"
proof (induction kvs arbitrary: m)
  case Nil
  show ?case by simp
next
  case (Cons x kvs)
  obtain k v where x: "x = (k, v)" by (cases x)
  from Cons.prems x have ok: "isValidHeaderName k" "isValidHeaderValue v"
    and rest: "list_all (\<lambda>(k, v). isValidHeaderName k \<and> isValidHeaderValue v) kvs"
    by simp_all
  show ?case
    by (simp add: x setHeader_ok [OF ok] Cons.IH [OF rest] put_def)
qed

lemma put_map_of: "map_of (put e h) = (map_of h)(toLowerCase (fst e) \<mapsto> js_trim (snd e))"
  by (simp add: put_def AList.update_conv')

lemma fold_put_map_of:
  "map_of (fold put kvs h) =
     map_of h ++ map_of (rev (map (\<lambda>e. (toLowerCase (fst e), js_trim (snd e))) kvs))"
proof (induction kvs arbitrary: h)
  case Nil
  show ?case by simp
next
  case (Cons x kvs)
  let ?M = "map_of (rev (map (\<lambda>e. (toLowerCase (fst e), js_trim (snd e))) kvs))"
  have "map_of (fold put (x # kvs) h) = map_of (put x h) ++ ?M"
    by (simp add: Cons.IH)
  also have "\<dots> = map_of h ++ ([toLowerCase (fst x) \<mapsto> js_trim (snd x)] ++ ?M)"
    by (rule ext) (simp add: put_map_of map_add_def split: option.splits)
  also have "\<dots> = map_of h ++ map_of (rev (map (\<lambda>e. (toLowerCase (fst e), js_trim (snd e))) (x # kvs)))"
    by simp
  finally show ?case .
qed

lemma map_of_perm:
  assumes "distinct (map fst xs)" "set ys = set xs" "distinct (map fst ys)"
  shows "map_of ys = map_of xs"
  using assms map_of_inject_set by blast

lemma copy_wf:
  assumes "wf_headers H"
  shows "list_all (\<lambda>(k, v). isValidHeaderName k \<and> isValidHeaderValue v) (Headers_forEach H)"
    and "map_of (rev (map (\<lambda>e. (toLowerCase (fst e), js_trim (snd e))) (Headers_forEach H))) =
         map_of (map (\<lambda>(k, v). (k, js_trim v)) H)"
proof -
  show "list_all (\<lambda>(k, v). isValidHeaderName k \<and> isValidHeaderValue v) (Headers_forEach H)"
    using assms unfolding wf_headers_def list_all_iff forEach_set by auto
  have low: "\<And>e. e \<in> set H \<Longrightarrow> toLowerCase (fst e) = fst e"
    using assms unfolding wf_headers_def list_all_iff by auto
  let ?F = "\<lambda>e. (toLowerCase (fst e), js_trim (snd e))"
  let ?G = "\<lambda>(k, v). (k, js_trim v)"
  have eq: "\<And>e. e \<in> set H \<Longrightarrow> ?F e = ?G e" using low by (auto split: prod.splits)
  have s: "set (rev (map ?F (Headers_forEach H))) = set (map ?G H)"
    using eq by (auto simp add: forEach_set image_iff)
  have a: "map fst (rev (map ?F (Headers_forEach H))) = rev (map fst (map ?F (Headers_forEach H)))"
    by (simp add: rev_map)
  have b: "map fst (map ?F (Headers_forEach H)) = map fst (Headers_forEach H)"
    using low by (simp add: forEach_set)
  have "distinct (rev (map fst (Headers_forEach H)))"
    using assms by (simp add: forEach_distinct wf_headers_def)
  then have d1: "distinct (map fst (rev (map ?F (Headers_forEach H))))"
    unfolding a b .
  have g: "map fst (map ?G H) = map fst H" by (induction H) auto
  have "distinct (map fst H)" using assms by (simp add: wf_headers_def)
  then have d2: "distinct (map fst (map ?G H))" unfolding g .
  show "map_of (rev (map ?F (Headers_forEach H))) = map_of (map ?G H)"
    using d2 s d1 by (rule map_of_perm)
qed

lemma build_reply_ok:
  assumes "wf_headers H" "isValidHeaderValue u" "isValidHeaderValue S" "S \<noteq> []" "js_trim S = S"
  shows "\<exists>r. build_reply u S H = Inr r \<and> method_kind r = REPLY \<and> isReply r \<and>
     map_of (headers r) =
       (map_of (map (\<lambda>(k, v). (k, js_trim v)) H))(''st'' \<mapsto> S, ''usn'' \<mapsto> usn u S)"
proof -
  let ?kvs = "Headers_forEach H @ [(''ST'', S), (''USN'', usn u S)]"
  have ok: "list_all (\<lambda>(k, v). isValidHeaderName k \<and> isValidHeaderValue v) ?kvs"
    using copy_wf(1) [OF assms(1)] assms(2,3) by (simp add: const_names valid_usn)
  have b: "build_reply u S H = Inr (new_Reply\<lparr>headers := fold put ?kvs []\<rparr>)"
    by (simp add: build_reply_def setHeaders_ok [OF ok] new_Reply_def)
  have m: "map_of (fold put ?kvs []) =
       (map_of (map (\<lambda>(k, v). (k, js_trim v)) H))(''st'' \<mapsto> S, ''usn'' \<mapsto> usn u S)"
    using assms(4,5)
    by (simp add: put_map_of fold_put_map_of const_names copy_wf(2) [OF assms(1)] js_trim_usn)
  show ?thesis using b m by (simp add: new_Reply_def)
qed

lemma number_toString_digit:
  "0 \<le> w \<Longrightarrow> w < 10 \<Longrightarrow> number_toString w = [''0123456789'' ! nat w]"
  by (simp add: number_toString_def)

lemma small_numbers:
  assumes "1 \<le> w" "w \<le> 5"
  shows "isValidHeaderValue (number_toString w) \<and> js_trim (number_toString w) = number_toString w"
proof -
  have d: "number_toString w = [''0123456789'' ! nat w]"
    using assms by (simp add: number_toString_digit)
  from assms have "w = 1 \<or> w = 2 \<or> w = 3 \<or> w = 4 \<or> w = 5" by arith
  then show ?thesis
    unfolding d
    by (elim disjE) (simp_all add: js_trim_def js_ws_def isValidHeaderValue_def)
qed

lemmas codec_defs =
  Payload_decode_def decode_line_def js_trim_def js_ws_def Headers_set_def
  isValidHeaderName_def isValidHeaderValue_def headerValueNormalize_def http_ws_def
  tchar_def tchars_def toLowerCase_def lower_char_def upper_latin1_def lower_latin1_def
  toUpperCase_def upper_char_def lower_letters_def upper_letters_def CRLF_def

lemma example_decode:
  "Search_decode (search_text discover_man ''upnp:rootdevice'') (address ep_remote) (eport ep_remote) =
     Inr (decoded_search ''upnp:rootdevice'')"
  "Search_decode (search_text discover_man ''uuid:U1'') (address ep_remote) (eport ep_remote) =
     Inr (decoded_search ''uuid:U1'')"
  "Search_decode (search_text discover_man ''urn:test:1'') (address ep_remote) (eport ep_remote) =
     Inr (decoded_search ''urn:test:1'')"
  by (simp_all add: Search_decode_def search_text_def new_Search_def ep_remote_def
        decoded_search_def discover_man_def codec_defs)

lemma example_facts:
  "startsWith ''M-SEARCH'' (search_text m st)"
  "getHeader ''MAN'' (decoded_search (t # ts)) = Some discover_man"
  "getHeader ''ST'' (decoded_search (t # ts)) = Some (t # ts)"
  "host (decoded_search st) = ''192.168.1.20''" "port (decoded_search st) = 50000"
  "address ep_remote = ''192.168.1.20''" "eport ep_remote = 50000"
  by (simp_all add: startsWith_def search_text_def getHeader_conv decoded_search_def
        discover_man_def new_Search_def ep_remote_def)

lemma adv_facts:
  "uuid adv0 = ''U1''" "uuid adv1 = ''U1''" "uuid adv_root = ''U1''"
  "isValidHeaderValue ''U1''"
  "authenticationProvider adv0 x" "authenticationProvider adv1 x" "authenticationProvider adv_root x"
  "transport adv0 ob = []" "transport adv1 ob = []" "transport adv_root ob = []"
  "sent adv0 = []" "sent adv1 = []" "sent adv_root = []"
  "emitted adv0 = []" "emitted adv1 = []" "emitted adv_root = []"
  "services adv0 = []"
  "services adv1 = [(''urn:test:1'', [(''location'', ''http://192.168.1.10/d.xml'')])]"
  "services adv_root = [(''upnp:rootdevice'', [(''location'', ''http://192.168.1.10/d.xml'')])]"
  by (simp_all add: adv0_def adv1_def adv_root_def isValidHeaderValue_def)

lemma identity_reply:
  assumes d: "Search_decode text (address remote) (eport remote) = Inr p"
    and m: "startsWith ''M-SEARCH'' text"
    and man: "getHeader ''MAN'' p = Some discover_man"
    and st: "getHeader ''ST'' p = Some target"
    and auth: "authenticationProvider a (address remote)"
    and t: "target = ''upnp:rootdevice'' \<or> target = ''uuid:'' @ uuid a"
    and u: "isValidHeaderValue (uuid a)"
  shows "handle_payload p local remote a =
           a\<lparr>sent := sent a @ [\<lparr>message = new_Reply\<lparr>headers := [(''st'', target), (''usn'', usn (uuid a) target)]\<rparr>,
                   dstAddress = Some (address remote), dstPort = Some (eport remote)\<rparr>],
             emitted := emitted a @ Search target p remote local #
               map AdvError (transport a \<lparr>message = new_Reply\<lparr>headers := [(''st'', target), (''usn'', usn (uuid a) target)]\<rparr>,
                   dstAddress = Some (address remote), dstPort = Some (eport remote)\<rparr>)\<rparr>"
    and "Advertiser_receive text local remote fromSelf a = handle_payload p local remote a"
proof -
  from d have f: "host p = address remote" "port p = eport remote" "decoded (headers p)"
    using Search_decode_fields by blast+
  from f(3) st have tt: "target \<noteq> []" "js_trim target = target" "isValidHeaderValue target"
    using decoded_target by blast+
  have b: "build_reply (uuid a) target [] =
      Inr (new_Reply\<lparr>headers := [(''st'', target), (''usn'', usn (uuid a) target)]\<rparr>)"
    using u tt by (simp add: build_reply_empty)
  have na: "target \<noteq> ''ssdp:all''" using t by auto
  have h: "handle_payload p local remote a =
      Advertiser_reply p [(target, [])] (emit_search target p remote local a)"
    using man st auth t na by (auto simp add: handle_payload_def Let_def)
  show "Advertiser_receive text local remote fromSelf a = handle_payload p local remote a"
    using d m man get_has [OF st]
    by (simp add: Advertiser_receive_def SSDP_on_message_def Advertiser_on_event_def)
  show "handle_payload p local remote a =
           a\<lparr>sent := sent a @ [\<lparr>message = new_Reply\<lparr>headers := [(''st'', target), (''usn'', usn (uuid a) target)]\<rparr>,
                   dstAddress = Some (address remote), dstPort = Some (eport remote)\<rparr>],
             emitted := emitted a @ Search target p remote local #
               map AdvError (transport a \<lparr>message = new_Reply\<lparr>headers := [(''st'', target), (''usn'', usn (uuid a) target)]\<rparr>,
                   dstAddress = Some (address remote), dstPort = Some (eport remote)\<rparr>)\<rparr>"
    unfolding h reply_single [OF b] f by simp
qed




lemma first_lines:
  "first_line M_SEARCH = ''M-SEARCH * HTTP/1.1''"
  "first_line NOTIFY = ''NOTIFY * HTTP/1.1''"
  "first_line REPLY = ''HTTP/1.1 200 OK''"
  by (simp_all add: first_line_def method_text_def codec_defs)



lemma split_at_first_colon:
  assumes "c \<in> set l"
  shows "js_split c l = takeWhile (\<lambda>x. x \<noteq> c) l # js_split c (drop 1 (dropWhile (\<lambda>x. x \<noteq> c) l))"
proof -
  let ?P = "\<lambda>x. x \<noteq> c"
  from assms have n: "dropWhile ?P l \<noteq> []" by (auto simp add: dropWhile_eq_Nil_conv)
  then have "\<not> ?P (hd (dropWhile ?P l))" by (rule hd_dropWhile)
  then have "hd (dropWhile ?P l) = c" by simp
  with n have d: "dropWhile ?P l = c # drop 1 (dropWhile ?P l)"
    by (cases "dropWhile ?P l") simp_all
  have "c \<notin> set (takeWhile ?P l)" by (auto dest: set_takeWhileD)
  then have "js_split c (takeWhile ?P l @ c # drop 1 (dropWhile ?P l)) =
      takeWhile ?P l # js_split c (drop 1 (dropWhile ?P l))"
    by (rule js_split_sep)
  moreover have "takeWhile ?P l @ c # drop 1 (dropWhile ?P l) = l"
    using d by (metis takeWhile_dropWhile_id)
  ultimately show ?thesis by simp
qed

lemma decode_line_amended:
  "decode_line l h = (case amended_pair l of None \<Rightarrow> Inr h | Some (k, v) \<Rightarrow> Headers_set k v h)"
proof (cases "CHR '':'' \<in> set l")
  case False
  then have "js_split CHR '':'' l = [l]" by (rule js_split_none)
  with False show ?thesis by (simp add: decode_line_def amended_pair_def first_colon_def)
next
  case True
  let ?k = "takeWhile (\<lambda>x. x \<noteq> CHR '':'') l"
  let ?r = "drop 1 (dropWhile (\<lambda>x. x \<noteq> CHR '':'') l)"
  have s: "js_split CHR '':'' l = ?k # js_split CHR '':'' ?r"
    using True by (rule split_at_first_colon)
  have n: "map js_trim (js_split CHR '':'' ?r) \<noteq> []"
    using js_split_nonempty [of "CHR '':''" ?r] by simp
  show ?thesis
    using True n
    by (simp add: decode_line_def s amended_pair_def first_colon_def colon_trim_def
          del: js_split.simps)
qed

lemma decode_lines_amended:
  "decode_lines ls h = write_pairs (List.map_filter amended_pair ls) h"
proof (induction ls arbitrary: h)
  case Nil
  show ?case by (simp add: List.map_filter_simps)
next
  case (Cons l ls)
  show ?case
    by (cases "amended_pair l")
       (auto simp add: List.map_filter_simps decode_line_amended Cons.IH split: sum.splits)
qed

lemma split_join_lines:
  assumes "\<forall>x \<in> set L. CHR 0x0A \<notin> set x"
  shows "js_split CHR 0x0A (js_join CRLF (L @ [t])) = map (\<lambda>x. x @ [CHR 0x0D]) L @ js_split CHR 0x0A t"
  using assms
proof (induction L)
  case Nil
  show ?case by simp
next
  case (Cons x L)
  have j: "js_join CRLF (x # (L @ [t])) = x @ CRLF @ js_join CRLF (L @ [t])"
    by (rule js_join_Cons) simp
  have n: "CHR 0x0A \<notin> set (x @ [CHR 0x0D])" using Cons.prems by simp
  have "js_split CHR 0x0A ((x @ [CHR 0x0D]) @ CHR 0x0A # js_join CRLF (L @ [t])) =
      (x @ [CHR 0x0D]) # js_split CHR 0x0A (js_join CRLF (L @ [t]))"
    using n by (rule js_split_sep)
  then show ?case using j Cons by (simp add: CRLF_def del: js_split.simps)
qed

lemma first_line_no_LF: "CHR 0x0A \<notin> set (first_line m)"
  by (cases m) (simp_all add: first_lines)

lemma colon_trim_valid:
  assumes "isValidHeaderValue v"
  shows "isValidHeaderValue (colon_trim v)"
proof -
  have "set (colon_trim v) \<subseteq> set (js_join '':'' (map js_trim (js_split CHR '':'' v)))"
    unfolding colon_trim_def by (rule js_trim_set)
  also have "\<dots> \<subseteq> set '':'' \<union> (\<Union>p \<in> set (map js_trim (js_split CHR '':'' v)). set p)"
    by (rule js_join_set)
  also have "\<dots> \<subseteq> insert CHR '':'' (set v)"
    using js_split_set [of _ "CHR '':''" v] js_trim_set by fastforce
  finally have "set (colon_trim v) \<subseteq> insert CHR '':'' (set v)" .
  with assms show ?thesis by (auto simp add: isValidHeaderValue_def list_all_iff)
qed

lemma upper_name_facts:
  assumes "isValidHeaderName k"
  shows "toUpperCase k \<noteq> []" "list_all tchar (toUpperCase k)"
    "isValidHeaderName (toUpperCase k)" "toLowerCase (toUpperCase k) = toLowerCase k"
  using assms toUpperCase_token [of k] by (auto simp add: isValidHeaderName_def)

lemma wire_line_nonempty:
  assumes "wf_entry e"
  shows "js_trim (header_line e @ [CHR 0x0D]) \<noteq> []"
proof -
  let ?K = "toUpperCase (fst e)"
  from assms have k: "?K \<noteq> []" "list_all tchar ?K"
    using upper_name_facts by (auto simp add: wf_entry_def)
  then have "tchar (hd ?K)" by (cases ?K) simp_all
  then have "\<not> js_ws (hd ?K)" using tchar_cases by blast
  moreover have "hd ?K \<in> set (header_line e @ [CHR 0x0D])"
    using k(1) by (cases ?K) (simp_all add: header_line_def)
  ultimately have "\<not> list_all js_ws (header_line e @ [CHR 0x0D])"
    unfolding list_all_iff by blast
  then show ?thesis by (simp only: js_trim_empty_iff not_False_eq_True)
qed

lemma wire_line_no_LF:
  assumes "wf_entry e"
  shows "CHR 0x0A \<notin> set (header_line e)"
proof -
  let ?K = "toUpperCase (fst e)"
  from assms have "list_all tchar ?K"
    using upper_name_facts by (auto simp add: wf_entry_def)
  then have "CHR 0x0A \<notin> set ?K" using tchar_cases by (auto simp add: list_all_iff)
  moreover have "CHR 0x0A \<notin> set (snd e)"
    using assms by (auto simp add: wf_entry_def isValidHeaderValue_def list_all_iff)
  ultimately show ?thesis by (simp add: header_line_def)
qed

lemma wire_line_decode:
  assumes "wf_entry e"
  shows "decode_line (js_trim (header_line e @ [CHR 0x0D])) h =
     Inr (AList.update (fst e) (colon_trim (snd e)) h)"
proof -
  let ?K = "toUpperCase (fst e)"
  let ?v = "snd e"
  from assms have k: "?K \<noteq> []" "list_all tchar ?K" "isValidHeaderName ?K"
    and low: "toLowerCase ?K = fst e"
    and v: "isValidHeaderValue ?v"
    using upper_name_facts [of "fst e"] by (auto simp add: wf_entry_def)
  have nc: "CHR '':'' \<notin> set ?K" using k(2) tchar_cases by (auto simp add: list_all_iff)
  have ws: "\<not> js_ws CHR '':''" by (simp add: js_ws_def)
  have w1: "list_all js_ws '' ''" and w2: "list_all js_ws [CHR 0x0D]" by (simp_all add: js_ws_def)
  have a: "map js_trim (js_split CHR '':'' (js_trim (header_line e @ [CHR 0x0D]))) =
      map js_trim (js_split CHR '':'' (header_line e @ [CHR 0x0D]))"
    using ws by (rule trim_split_trim)
  have b: "header_line e @ [CHR 0x0D] = ?K @ CHR '':'' # ('' '' @ ?v @ [CHR 0x0D])"
    by (simp add: header_line_def)
  have c: "js_split CHR '':'' (?K @ CHR '':'' # ('' '' @ ?v @ [CHR 0x0D])) =
      ?K # js_split CHR '':'' ('' '' @ ?v @ [CHR 0x0D])"
    using nc by (rule js_split_sep)
  have d: "map js_trim (js_split CHR '':'' ('' '' @ ?v @ [CHR 0x0D])) =
      map js_trim (js_split CHR '':'' ?v)"
    using w1 w2 ws by (rule trim_split_ws)
  have t: "js_trim ?K = ?K" using k(3) by (rule name_trim)
  have parts: "map js_trim (js_split CHR '':'' (js_trim (header_line e @ [CHR 0x0D]))) =
      ?K # map js_trim (js_split CHR '':'' ?v)"
  proof -
    have "map js_trim (js_split CHR '':'' (js_trim (header_line e @ [CHR 0x0D]))) =
        map js_trim (js_split CHR '':'' (header_line e @ [CHR 0x0D]))"
      by (rule a)
    also have "\<dots> = map js_trim (js_split CHR '':'' (?K @ CHR '':'' # ('' '' @ ?v @ [CHR 0x0D])))"
      by (simp only: b)
    also have "\<dots> = map js_trim (?K # js_split CHR '':'' ('' '' @ ?v @ [CHR 0x0D]))"
      by (simp only: c)
    also have "\<dots> = ?K # map js_trim (js_split CHR '':'' ?v)"
      by (simp only: list.map d t)
    finally show ?thesis .
  qed
  have ne: "map js_trim (js_split CHR '':'' ?v) \<noteq> []"
    using js_split_nonempty [of "CHR '':''" ?v] by simp
  have kk: "isValidHeaderName (toUpperCase ?K)" "toLowerCase (toUpperCase ?K) = fst e"
    using upper_name_facts [OF k(3)] low by simp_all
  have vv: "isValidHeaderValue (headerValueNormalize (colon_trim ?v))"
    "headerValueNormalize (colon_trim ?v) = colon_trim ?v"
    using colon_trim_valid [OF v] by (simp_all add: colon_trim_def normalize_js_trim)
  have "decode_line (js_trim (header_line e @ [CHR 0x0D])) h =
      Headers_set (toUpperCase ?K) (colon_trim ?v) h"
    using k(1) ne by (simp add: decode_line_def parts colon_trim_def)
  also have "\<dots> = Inr (AList.update (fst e) (colon_trim ?v) h)"
    using Headers_set_ok [OF kk(1) vv(1)] by (simp add: kk(2) vv(2))
  finally show ?thesis .
qed

lemma wire_lines_decode:
  "list_all wf_entry es \<Longrightarrow>
     decode_lines (map (\<lambda>e. js_trim (header_line e @ [CHR 0x0D])) es) h =
       Inr (fold (\<lambda>e. AList.update (fst e) (colon_trim (snd e))) es h)"
  by (induction es arbitrary: h) (simp_all add: wire_line_decode)

lemma fold_update_map_of:
  "map_of (fold (\<lambda>e. AList.update (fst e) (g (snd e))) es h) =
     map_of h ++ map_of (rev (map (\<lambda>e. (fst e, g (snd e))) es))"
proof (induction es arbitrary: h)
  case Nil
  show ?case by simp
next
  case (Cons x es)
  let ?M = "map_of (rev (map (\<lambda>e. (fst e, g (snd e))) es))"
  have "map_of (fold (\<lambda>e. AList.update (fst e) (g (snd e))) (x # es) h) =
      map_of (AList.update (fst x) (g (snd x)) h) ++ ?M"
    by (simp add: Cons.IH)
  also have "\<dots> = map_of h ++ ([fst x \<mapsto> g (snd x)] ++ ?M)"
    by (rule ext) (simp add: AList.update_conv' map_add_def split: option.splits)
  also have "\<dots> = map_of h ++ map_of (rev (map (\<lambda>e. (fst e, g (snd e))) (x # es)))"
    by simp
  finally show ?case .
qed

lemma wire_body_lines:
  assumes "list_all wf_entry es"
  shows "filter (\<lambda>line. line \<noteq> [])
           (map js_trim (drop 1 (js_split CHR 0x0A
              (js_join CRLF ((first_line k # map header_line es) @ [CRLF]))))) =
         map (\<lambda>e. js_trim (header_line e @ [CHR 0x0D])) es"
proof -
  have noLF: "\<forall>x \<in> set (first_line k # map header_line es). CHR 0x0A \<notin> set x"
    using assms first_line_no_LF wire_line_no_LF by (auto simp add: list_all_iff)
  have s: "js_split CHR 0x0A (js_join CRLF ((first_line k # map header_line es) @ [CRLF])) =
      map (\<lambda>x. x @ [CHR 0x0D]) (first_line k # map header_line es) @ js_split CHR 0x0A CRLF"
    using noLF by (rule split_join_lines)
  have e: "js_split CHR 0x0A CRLF = [[CHR 0x0D], []]" by (simp add: CRLF_def)
  have t: "js_trim [CHR 0x0D] = []" "js_trim [] = []" by (simp_all add: js_trim_def js_ws_def)
  have ne: "\<forall>e \<in> set es. js_trim (header_line e @ [CHR 0x0D]) \<noteq> []"
    using assms wire_line_nonempty by (auto simp add: list_all_iff)
  have f: "filter (\<lambda>line. line \<noteq> []) (map (\<lambda>e. js_trim (header_line e @ [CHR 0x0D])) es) =
      map (\<lambda>e. js_trim (header_line e @ [CHR 0x0D])) es"
    using ne by (simp add: filter_id_conv)
  show ?thesis
    unfolding s e using f by (simp add: t comp_def)
qed

lemma build_reply_some:
  assumes "wf_headers hs" "isValidHeaderValue u" "isValidHeaderValue s"
  shows "\<exists>r. build_reply u s hs = Inr r"
proof -
  let ?kvs = "Headers_forEach hs @ [(''ST'', s), (''USN'', usn u s)]"
  have ok: "list_all (\<lambda>(k, v). isValidHeaderName k \<and> isValidHeaderValue v) ?kvs"
    using copy_wf(1) [OF assms(1)] assms(2,3) by (simp add: const_names valid_usn)
  show ?thesis by (simp add: build_reply_def setHeaders_ok [OF ok])
qed

lemma reply_all:
  assumes "list_all (\<lambda>(s, hs). isValidHeaderValue s \<and> wf_headers hs) es"
    and "isValidHeaderValue (uuid a)"
  shows "\<exists>obs. Advertiser_reply p es a =
            a\<lparr>sent := sent a @ obs,
              emitted := emitted a @ concat (map (\<lambda>ob. map AdvError (transport a ob)) obs)\<rparr> \<and>
          (\<forall>(s, hs) \<in> set es. \<exists>r. build_reply (uuid a) s hs = Inr r \<and>
             \<lparr>message = r, dstAddress = Some (host p), dstPort = Some (port p)\<rparr> \<in> set obs)"
  using assms
proof (induction es arbitrary: a)
  case Nil
  show ?case by (intro exI [of _ "[]"]) simp
next
  case (Cons e es)
  obtain s hs where e: "e = (s, hs)" by (cases e)
  from Cons.prems e have ok: "isValidHeaderValue s" "wf_headers hs"
    and rest: "list_all (\<lambda>(s, hs). isValidHeaderValue s \<and> wf_headers hs) es"
    by simp_all
  obtain r where r: "build_reply (uuid a) s hs = Inr r"
    using build_reply_some [OF ok(2) Cons.prems(2) ok(1)] by blast
  let ?ob = "\<lparr>message = r, dstAddress = Some (host p), dstPort = Some (port p)\<rparr>"
  let ?a1 = "settle (SSDP_reply p r) a"
  have a1: "?a1 = a\<lparr>sent := sent a @ [?ob], emitted := emitted a @ map AdvError (transport a ?ob)\<rparr>"
    by (simp add: settle_def SSDP_reply_def sendMessage_def as_payload_id)
  have u1: "isValidHeaderValue (uuid ?a1)" using Cons.prems(2) by (simp add: a1)
  from Cons.IH [OF rest u1] obtain obs where
    o: "Advertiser_reply p es ?a1 =
          ?a1\<lparr>sent := sent ?a1 @ obs,
              emitted := emitted ?a1 @ concat (map (\<lambda>ob. map AdvError (transport ?a1 ob)) obs)\<rparr>"
    and m: "\<forall>(s, hs) \<in> set es. \<exists>r. build_reply (uuid ?a1) s hs = Inr r \<and>
             \<lparr>message = r, dstAddress = Some (host p), dstPort = Some (port p)\<rparr> \<in> set obs"
    by blast
  have step: "Advertiser_reply p (e # es) a = Advertiser_reply p es ?a1"
    by (simp add: e r)
  have "Advertiser_reply p (e # es) a =
      a\<lparr>sent := sent a @ (?ob # obs),
        emitted := emitted a @ concat (map (\<lambda>ob. map AdvError (transport a ob)) (?ob # obs))\<rparr>"
    unfolding step o by (simp add: a1)
  moreover have "\<forall>(s, hs) \<in> set (e # es). \<exists>r. build_reply (uuid a) s hs = Inr r \<and>
             \<lparr>message = r, dstAddress = Some (host p), dstPort = Some (port p)\<rparr> \<in> set (?ob # obs)"
    using m r e by (auto simp add: a1)
  ultimately show ?case by blast
qed

subsection \<open>The order of the encoded lines\<close>








lemma compare_code_units_refl: "compare_code_units x x = 0"
  by (induction x) simp_all




















section \<open>The Browser classifies inbound messages\<close>

lemma not_has_get: "\<not> hasHeader k p \<Longrightarrow> getHeader k p = None"
  by (simp add: hasHeader_def getHeader_def Headers_has_def Headers_get_def)

text \<open>
  C2. For the Browser: an inbound Reply or Notification whose target (the ST header of a
  Reply, the NT header of a Notification, as \<open>getHeader\<close> reads it) is absent or not in
  the Subscription Set produces no event. If the target is subscribed, a Reply yields one
  \<open>discover\<close> event; a Notification whose NTS is \<open>ssdp:alive\<close> or
  \<open>ssdp:update\<close> yields one \<open>discover\<close> event, one whose NTS is \<open>ssdp:byebye\<close>
  yields one \<open>withdraw\<close> event, and any other or absent NTS yields no event.
\<close>

theorem browser_classification:
  "((getHeader ''ST'' p = None \<or> (\<exists>t. getHeader ''ST'' p = Some t \<and> t \<notin> set (searchTargets b)))
      \<longrightarrow> Browser_on_event (OnReply p l r f) b = b) \<and>
   ((getHeader ''NT'' p = None \<or> (\<exists>t. getHeader ''NT'' p = Some t \<and> t \<notin> set (searchTargets b)))
      \<longrightarrow> Browser_on_event (OnNotification p l r f) b = b) \<and>
   (getHeader ''ST'' p = Some t \<and> t \<in> set (searchTargets b) \<and> isReply p
      \<longrightarrow> Browser_on_event (OnReply p l r f) b =
            b\<lparr>bemitted := bemitted b @ [Discover t p r l]\<rparr>) \<and>
   (getHeader ''NT'' p = Some t \<and> t \<in> set (searchTargets b) \<and> \<not> isReply p \<and>
    (getHeader ''NTS'' p = Some ''ssdp:alive'' \<or> getHeader ''NTS'' p = Some ''ssdp:update'')
      \<longrightarrow> Browser_on_event (OnNotification p l r f) b =
            b\<lparr>bemitted := bemitted b @ [Discover t p r l]\<rparr>) \<and>
   (getHeader ''NT'' p = Some t \<and> t \<in> set (searchTargets b) \<and> \<not> isReply p \<and>
    getHeader ''NTS'' p = Some ''ssdp:byebye''
      \<longrightarrow> Browser_on_event (OnNotification p l r f) b =
            b\<lparr>bemitted := bemitted b @ [Withdraw t p r l]\<rparr>) \<and>
   (getHeader ''NT'' p = Some t \<and> t \<in> set (searchTargets b) \<and> \<not> isReply p \<and>
    getHeader ''NTS'' p \<notin> {Some ''ssdp:alive'', Some ''ssdp:update'', Some ''ssdp:byebye''}
      \<longrightarrow> Browser_on_event (OnNotification p l r f) b = b)"
  by (auto simp add: Browser_on_event_def Browser_handle_payload_def Let_def)

text \<open>
  The theorem at the Browser subscribed to \<open>urn:test:1\<close>: a byebye for it is a
  withdrawal, an alive and a Reply are discoveries, a Notification with another NTS and a
  Reply for another target leave the Browser as it was.
\<close>

theorem browser_classification_witness:
  "Browser_on_event (OnNotification (notification_of ''urn:test:1'' ''ssdp:byebye'') ep_local ep_remote False) browser1 =
     browser1\<lparr>bemitted := [Withdraw ''urn:test:1'' (notification_of ''urn:test:1'' ''ssdp:byebye'') ep_remote ep_local]\<rparr> \<and>
   Browser_on_event (OnNotification (notification_of ''urn:test:1'' ''ssdp:alive'') ep_local ep_remote False) browser1 =
     browser1\<lparr>bemitted := [Discover ''urn:test:1'' (notification_of ''urn:test:1'' ''ssdp:alive'') ep_remote ep_local]\<rparr> \<and>
   Browser_on_event (OnReply (reply_of ''urn:test:1'') ep_local ep_remote False) browser1 =
     browser1\<lparr>bemitted := [Discover ''urn:test:1'' (reply_of ''urn:test:1'') ep_remote ep_local]\<rparr> \<and>
   Browser_on_event (OnNotification (notification_of ''urn:test:1'' ''ssdp:other'') ep_local ep_remote False) browser1 =
     browser1 \<and>
   Browser_on_event (OnReply (reply_of ''urn:test:2'') ep_local ep_remote False) browser1 = browser1"
proof -
  have nt: "\<And>nts. getHeader ''NT'' (notification_of ''urn:test:1'' nts) = Some ''urn:test:1''"
    by (simp add: getHeader_conv notification_of_def)
  have nts: "getHeader ''NTS'' (notification_of ''urn:test:1'' ''ssdp:byebye'') = Some ''ssdp:byebye''"
    "getHeader ''NTS'' (notification_of ''urn:test:1'' ''ssdp:alive'') = Some ''ssdp:alive''"
    "getHeader ''NTS'' (notification_of ''urn:test:1'' ''ssdp:other'') = Some ''ssdp:other''"
    by (simp_all add: getHeader_conv notification_of_def)
  have st: "getHeader ''ST'' (reply_of ''urn:test:1'') = Some ''urn:test:1''"
    "getHeader ''ST'' (reply_of ''urn:test:2'') = Some ''urn:test:2''"
    by (simp_all add: getHeader_conv reply_of_def)
  have kind: "\<And>nts. \<not> isReply (notification_of ''urn:test:1'' nts)" "isReply (reply_of ''urn:test:1'')"
    by (simp_all add: notification_of_def reply_of_def new_Notification_def new_Reply_def)
  have sub: "''urn:test:1'' \<in> set (searchTargets browser1)" "''urn:test:2'' \<notin> set (searchTargets browser1)"
    "bemitted browser1 = []"
    by (simp_all add: browser1_def)
  show ?thesis
    using browser_classification [of "notification_of ''urn:test:1'' ''ssdp:byebye''" browser1 ep_local ep_remote False "''urn:test:1''"]
      browser_classification [of "notification_of ''urn:test:1'' ''ssdp:alive''" browser1 ep_local ep_remote False "''urn:test:1''"]
      browser_classification [of "reply_of ''urn:test:1''" browser1 ep_local ep_remote False "''urn:test:1''"]
      browser_classification [of "notification_of ''urn:test:1'' ''ssdp:other''" browser1 ep_local ep_remote False "''urn:test:1''"]
      browser_classification [of "reply_of ''urn:test:2''" browser1 ep_local ep_remote False "''urn:test:2''"]
    by (simp add: nt nts st kind sub)
qed

section \<open>The search validity gate\<close>

text \<open>
  C5. For every decoded inbound Search message, if its MAN header is not exactly
  \<open>"ssdp:discover"\<close> (with the quote characters) or it carries no ST header, the
  Advertiser emits no \<open>search\<close> event and sends no reply: the state of the Advertiser,
  with its events and the messages it has sent, stays as it was, both when the payload
  reaches \<open>handle_payload\<close> and when the datagram it was decoded from goes through the
  socket wrapper.
\<close>

theorem search_validity_gate:
  assumes "getHeader ''MAN'' p \<noteq> Some discover_man \<or> \<not> hasHeader ''ST'' p"
  shows "handle_payload p local remote a = a \<and>
     (Search_decode text (address remote) (eport remote) = Inr p \<longrightarrow>
        Advertiser_receive text local remote fromSelf a = a)"
proof -
  have g: "getHeader ''MAN'' p \<noteq> Some discover_man \<or> getHeader ''ST'' p = None"
    using assms not_has_get [of "''ST''" p] by auto
  have h: "handle_payload p local remote a = a"
    using g by (auto simp add: handle_payload_def Let_def)
  have r: "Advertiser_receive text local remote fromSelf a = a"
    if d: "Search_decode text (address remote) (eport remote) = Inr p"
  proof -
    from d obtain hs where hs: "Payload_decode text = Inr hs"
      by (auto simp add: Search_decode_def split: sum.splits)
    show ?thesis
      using d hs h
      by (simp add: Advertiser_receive_def SSDP_on_message_def Advertiser_on_event_def
            Notification_decode_def Reply_decode_def)
  qed
  from h r show ?thesis by blast
qed

text \<open>
  The theorem at two datagrams: a search whose MAN lacks the quotes, and a search with no
  ST line.
\<close>

theorem search_validity_gate_witness:
  "Search_decode (search_text ''ssdp:discover'' ''urn:test:1'') (address ep_remote) (eport ep_remote) =
     Inr ((new_Search ''192.168.1.20'' 50000)\<lparr>headers := [(''man'', ''ssdp:discover''), (''st'', ''urn:test:1'')]\<rparr>) \<and>
   Advertiser_receive (search_text ''ssdp:discover'' ''urn:test:1'') ep_local ep_remote False adv0 = adv0 \<and>
   \<not> hasHeader ''ST'' ((new_Search ''192.168.1.20'' 50000)\<lparr>headers := [(''man'', discover_man)]\<rparr>) \<and>
   handle_payload ((new_Search ''192.168.1.20'' 50000)\<lparr>headers := [(''man'', discover_man)]\<rparr>) ep_local ep_remote adv0 = adv0"
proof -
  let ?p = "(new_Search ''192.168.1.20'' 50000)\<lparr>headers := [(''man'', ''ssdp:discover''), (''st'', ''urn:test:1'')]\<rparr>"
  let ?q = "(new_Search ''192.168.1.20'' 50000)\<lparr>headers := [(''man'', discover_man)]\<rparr>"
  have d: "Search_decode (search_text ''ssdp:discover'' ''urn:test:1'') (address ep_remote) (eport ep_remote) = Inr ?p"
    by (simp add: Search_decode_def search_text_def new_Search_def ep_remote_def codec_defs)
  have m: "getHeader ''MAN'' ?p \<noteq> Some discover_man"
    by (simp add: getHeader_conv discover_man_def)
  have n: "\<not> hasHeader ''ST'' ?q"
    by (simp add: hasHeader_def Headers_has_def const_lookup)
  show ?thesis
    using search_validity_gate [of ?p ep_local ep_remote adv0 "search_text ''ssdp:discover'' ''urn:test:1''" False]
      search_validity_gate [of ?q ep_local ep_remote adv0 "[]" False] d m n
    by simp
qed

section \<open>Replies to searches for the root device and the identity\<close>

text \<open>
  C7. An Advertiser receiving a valid authenticated Search whose ST equals
  \<open>upnp:rootdevice\<close> or \<open>uuid:\<close> followed by its own uuid emits a \<open>search\<close> event
  and sends a Reply for that target, whatever its Service Table holds (also when it is
  empty): the Reply carries ST and USN and goes to the address and port of the sender. The
  uuid is taken to be text that can stand in a header (no NUL, CR or LF); with another uuid
  the Advertiser cannot send any message at all.
\<close>

theorem root_and_identity_reply:
  assumes "Search_decode text (address remote) (eport remote) = Inr p"
    and "startsWith ''M-SEARCH'' text"
    and "getHeader ''MAN'' p = Some discover_man"
    and "getHeader ''ST'' p = Some target"
    and "authenticationProvider a (address remote)"
    and "target = ''upnp:rootdevice'' \<or> target = ''uuid:'' @ uuid a"
    and "isValidHeaderValue (uuid a)"
  shows "let ob = \<lparr>message = new_Reply\<lparr>headers := [(''st'', target), (''usn'', usn (uuid a) target)]\<rparr>,
                   dstAddress = Some (address remote), dstPort = Some (eport remote)\<rparr>;
             a' = a\<lparr>sent := sent a @ [ob],
                     emitted := emitted a @ Search target p remote local # map AdvError (transport a ob)\<rparr>
         in handle_payload p local remote a = a' \<and>
            Advertiser_receive text local remote fromSelf a = a'"
  unfolding Let_def
  using identity_reply [OF assms, of local] identity_reply(2) [OF assms, of local fromSelf]
  by simp

text \<open>
  The theorem at the Advertiser with uuid \<open>U1\<close> and an empty Service Table, for a
  search for \<open>upnp:rootdevice\<close> and a search for \<open>uuid:U1\<close>.
\<close>

theorem root_and_identity_reply_witness:
  "Advertiser_receive (search_text discover_man ''upnp:rootdevice'') ep_local ep_remote False adv0 =
     adv0\<lparr>sent := [reply_to_remote [(''st'', ''upnp:rootdevice''), (''usn'', ''uuid:U1::upnp:rootdevice'')]],
          emitted := [Search ''upnp:rootdevice'' (decoded_search ''upnp:rootdevice'') ep_remote ep_local]\<rparr> \<and>
   Advertiser_receive (search_text discover_man ''uuid:U1'') ep_local ep_remote False adv0 =
     adv0\<lparr>sent := [reply_to_remote [(''st'', ''uuid:U1''), (''usn'', ''uuid:U1::uuid:U1'')]],
          emitted := [Search ''uuid:U1'' (decoded_search ''uuid:U1'') ep_remote ep_local]\<rparr> \<and>
   services adv0 = []"
  using root_and_identity_reply [OF example_decode(1) example_facts(1,2,3), of adv0 ep_local False]
    root_and_identity_reply [OF example_decode(2) example_facts(1,2,3), of adv0 ep_local False]
  by (simp add: Let_def adv_facts example_facts usn_def reply_to_remote_def)

section \<open>Replies to searches for a service\<close>

text \<open>
  C6, as stated, fails: an Advertiser holding \<open>upnp:rootdevice\<close> with the extra header
  LOCATION answers a search for \<open>upnp:rootdevice\<close> with a Reply that has ST and USN
  only, because the branch for the root device comes before the look-up in the Service
  Table and replies with an empty header set.
\<close>

theorem service_reply_counterexample:
  "map_of (services adv_root) ''upnp:rootdevice'' = Some [(''location'', ''http://192.168.1.10/d.xml'')] \<and>
   Advertiser_receive (search_text discover_man ''upnp:rootdevice'') ep_local ep_remote False adv_root =
     adv_root\<lparr>sent := [reply_to_remote [(''st'', ''upnp:rootdevice''), (''usn'', ''uuid:U1::upnp:rootdevice'')]],
          emitted := [Search ''upnp:rootdevice'' (decoded_search ''upnp:rootdevice'') ep_remote ep_local]\<rparr> \<and>
   Headers_get ''LOCATION'' [(''st'', ''upnp:rootdevice''), (''usn'', ''uuid:U1::upnp:rootdevice'')] = None"
proof -
  have l: "Headers_get ''LOCATION'' [(''st'', ''upnp:rootdevice''), (''usn'', ''uuid:U1::upnp:rootdevice'')] = None"
    by (simp add: Headers_get_def codec_defs)
  have u: "isValidHeaderValue (uuid adv_root)" by (simp add: adv_facts)
  have t: "''upnp:rootdevice'' = ''upnp:rootdevice'' \<or> ''upnp:rootdevice'' = ''uuid:'' @ uuid adv_root"
    by simp
  show ?thesis
    using identity_reply [OF example_decode(1) example_facts(1,2,3) adv_facts(7) t u, of ep_local]
      identity_reply(2) [OF example_decode(1) example_facts(1,2,3) adv_facts(7) t u, of ep_local False]
      l
    by (simp add: adv_facts example_facts usn_def reply_to_remote_def)
qed

text \<open>
  C6, amended. An Advertiser with uuid U holding service S with extra headers H, where S is
  neither \<open>upnp:rootdevice\<close> nor \<open>uuid:U\<close>, upon receiving a valid authenticated Search
  with ST = S, emits one \<open>search\<close> event and sends a Reply unicast to the host and port
  carried by that Search message (the address and port of the sender); the headers of the
  Reply are those of H, each value trimmed of outer white space, with ST set to S and USN
  set to \<open>uuid:U::S\<close>. Unless S is \<open>ssdp:all\<close> this Reply is the only message sent; for
  \<open>ssdp:all\<close> one Reply goes out for every entry of the Service Table, whose names and
  header sets are then taken to be well formed.
\<close>

theorem service_reply:
  assumes d: "Search_decode text (address remote) (eport remote) = Inr p"
    and m: "startsWith ''M-SEARCH'' text"
    and man: "getHeader ''MAN'' p = Some discover_man"
    and st: "getHeader ''ST'' p = Some S"
    and auth: "authenticationProvider a (address remote)"
    and held: "map_of (services a) S = Some H"
    and wf: "wf_headers H"
    and u: "isValidHeaderValue (uuid a)"
    and other: "S \<noteq> ''upnp:rootdevice''" "S \<noteq> ''uuid:'' @ uuid a"
    and table: "S = ''ssdp:all'' \<longrightarrow>
                 list_all (\<lambda>(s, hs). isValidHeaderValue s \<and> wf_headers hs) (services a)"
  shows "\<exists>r obs. Advertiser_receive text local remote fromSelf a =
            a\<lparr>sent := sent a @ obs,
              emitted := emitted a @ Search S p remote local #
                concat (map (\<lambda>ob. map AdvError (transport a ob)) obs)\<rparr> \<and>
          \<lparr>message = r, dstAddress = Some (host p), dstPort = Some (port p)\<rparr> \<in> set obs \<and>
          (S \<noteq> ''ssdp:all'' \<longrightarrow>
             obs = [\<lparr>message = r, dstAddress = Some (host p), dstPort = Some (port p)\<rparr>]) \<and>
          host p = address remote \<and> port p = eport remote \<and>
          method_kind r = REPLY \<and> isReply r \<and>
          map_of (headers r) =
            (map_of (map (\<lambda>(k, v). (k, js_trim v)) H))(''st'' \<mapsto> S, ''usn'' \<mapsto> usn (uuid a) S)"
proof -
  from d have f: "host p = address remote" "port p = eport remote" "decoded (headers p)"
    using Search_decode_fields by blast+
  from f(3) st have tt: "S \<noteq> []" "js_trim S = S" "isValidHeaderValue S"
    using decoded_target by blast+
  obtain r where b: "build_reply (uuid a) S H = Inr r"
    and r: "method_kind r = REPLY" "isReply r"
      "map_of (headers r) =
        (map_of (map (\<lambda>(k, v). (k, js_trim v)) H))(''st'' \<mapsto> S, ''usn'' \<mapsto> usn (uuid a) S)"
    using build_reply_ok [OF wf u tt(3) tt(1) tt(2)] by blast
  let ?ob = "\<lparr>message = r, dstAddress = Some (host p), dstPort = Some (port p)\<rparr>"
  have rc: "Advertiser_receive text local remote fromSelf a = handle_payload p local remote a"
    using d m man get_has [OF st]
    by (simp add: Advertiser_receive_def SSDP_on_message_def Advertiser_on_event_def)
  show ?thesis
  proof (cases "S = ''ssdp:all''")
    case False
    have h: "handle_payload p local remote a =
        Advertiser_reply p [(S, H)] (emit_search S p remote local a)"
      using man st auth other held False by (simp add: handle_payload_def Let_def)
    have "Advertiser_receive text local remote fromSelf a =
            a\<lparr>sent := sent a @ [?ob],
              emitted := emitted a @ Search S p remote local #
                concat (map (\<lambda>ob. map AdvError (transport a ob)) [?ob])\<rparr>"
      unfolding rc h reply_single [OF b] by simp
    then show ?thesis using f r False
      by (intro exI [of _ r] exI [of _ "[?ob]"]) simp
  next
    case True
    let ?a1 = "emit_search S p remote local a"
    have h: "handle_payload p local remote a = Advertiser_reply p (services a) ?a1"
      using man st auth True by (simp add: handle_payload_def Let_def)
    have t1: "list_all (\<lambda>(s, hs). isValidHeaderValue s \<and> wf_headers hs) (services a)"
      using table True by blast
    have u1: "isValidHeaderValue (uuid ?a1)" using u by (simp add: emit_search_def)
    from reply_all [OF t1 u1, of p] obtain obs where
      o: "Advertiser_reply p (services a) ?a1 =
            ?a1\<lparr>sent := sent ?a1 @ obs,
                emitted := emitted ?a1 @ concat (map (\<lambda>ob. map AdvError (transport ?a1 ob)) obs)\<rparr>"
      and mm: "\<forall>(s, hs) \<in> set (services a). \<exists>r. build_reply (uuid ?a1) s hs = Inr r \<and>
             \<lparr>message = r, dstAddress = Some (host p), dstPort = Some (port p)\<rparr> \<in> set obs"
      by blast
    have "(S, H) \<in> set (services a)" using held by (rule map_of_SomeD)
    with mm b have mem: "?ob \<in> set obs" by (auto simp add: emit_search_def)
    have "Advertiser_receive text local remote fromSelf a =
            a\<lparr>sent := sent a @ obs,
              emitted := emitted a @ Search S p remote local #
                concat (map (\<lambda>ob. map AdvError (transport a ob)) obs)\<rparr>"
      unfolding rc h o by (simp add: emit_search_def)
    then show ?thesis using f r mem True
      by (intro exI [of _ r] exI [of _ obs]) simp
  qed
qed

text \<open>
  The theorem at the Advertiser with uuid \<open>U1\<close> holding \<open>urn:test:1\<close> with a
  LOCATION header, and at an Advertiser that also holds an entry named \<open>ssdp:all\<close>.
\<close>

theorem service_reply_witness:
  "(\<exists>r. Advertiser_receive (search_text discover_man ''urn:test:1'') ep_local ep_remote False adv1 =
          adv1\<lparr>sent := [\<lparr>message = r, dstAddress = Some ''192.168.1.20'', dstPort = Some 50000\<rparr>],
               emitted := [Search ''urn:test:1'' (decoded_search ''urn:test:1'') ep_remote ep_local]\<rparr> \<and>
        map_of (headers r) =
          [''location'' \<mapsto> ''http://192.168.1.10/d.xml'', ''st'' \<mapsto> ''urn:test:1'',
           ''usn'' \<mapsto> ''uuid:U1::urn:test:1'']) \<and>
   (\<exists>r obs. Advertiser_receive (search_text discover_man ''ssdp:all'') ep_local ep_remote False adv_all =
          adv_all\<lparr>sent := obs,
               emitted := [Search ''ssdp:all'' (decoded_search ''ssdp:all'') ep_remote ep_local]\<rparr> \<and>
        \<lparr>message = r, dstAddress = Some ''192.168.1.20'', dstPort = Some 50000\<rparr> \<in> set obs \<and>
        map_of (headers r) = [''st'' \<mapsto> ''ssdp:all'', ''usn'' \<mapsto> ''uuid:U1::ssdp:all''])"
proof -
  have held: "map_of (services adv1) ''urn:test:1'' = Some [(''location'', ''http://192.168.1.10/d.xml'')]"
    by (simp add: adv_facts)
  have wf: "wf_headers [(''location'', ''http://192.168.1.10/d.xml'')]" "wf_headers []"
    by (simp_all add: wf_headers_def codec_defs)
  have u: "isValidHeaderValue (uuid adv1)" by (simp add: adv_facts)
  have other: "''urn:test:1'' \<noteq> ''upnp:rootdevice''" "''urn:test:1'' \<noteq> ''uuid:'' @ uuid adv1"
    "''urn:test:1'' = ''ssdp:all'' \<longrightarrow>
       list_all (\<lambda>(s, hs). isValidHeaderValue s \<and> wf_headers hs) (services adv1)"
    by simp_all
  have t: "js_trim ''http://192.168.1.10/d.xml'' = ''http://192.168.1.10/d.xml''"
    by (simp add: js_trim_def js_ws_def)
  from service_reply [OF example_decode(3) example_facts(1,2,3) adv_facts(6) held wf(1) u other,
      of ep_local False]
  obtain r obs where
    "Advertiser_receive (search_text discover_man ''urn:test:1'') ep_local ep_remote False adv1 =
       adv1\<lparr>sent := sent adv1 @ obs,
            emitted := emitted adv1 @ Search ''urn:test:1'' (decoded_search ''urn:test:1'') ep_remote ep_local #
               concat (map (\<lambda>ob. map AdvError (transport adv1 ob)) obs)\<rparr>"
    "obs = [\<lparr>message = r, dstAddress = Some (host (decoded_search ''urn:test:1'')),
                                  dstPort = Some (port (decoded_search ''urn:test:1''))\<rparr>]"
    "map_of (headers r) =
       (map_of (map (\<lambda>(k, v). (k, js_trim v)) [(''location'', ''http://192.168.1.10/d.xml'')]))
         (''st'' \<mapsto> ''urn:test:1'', ''usn'' \<mapsto> usn (uuid adv1) ''urn:test:1'')"
    by auto
  then have
    "Advertiser_receive (search_text discover_man ''urn:test:1'') ep_local ep_remote False adv1 =
          adv1\<lparr>sent := [\<lparr>message = r, dstAddress = Some ''192.168.1.20'', dstPort = Some 50000\<rparr>],
               emitted := [Search ''urn:test:1'' (decoded_search ''urn:test:1'') ep_remote ep_local]\<rparr> \<and>
        map_of (headers r) =
          [''location'' \<mapsto> ''http://192.168.1.10/d.xml'', ''st'' \<mapsto> ''urn:test:1'',
           ''usn'' \<mapsto> ''uuid:U1::urn:test:1'']"
    by (simp add: adv_facts example_facts t usn_def)
  then have first: "\<exists>r. Advertiser_receive (search_text discover_man ''urn:test:1'') ep_local ep_remote False adv1 =
          adv1\<lparr>sent := [\<lparr>message = r, dstAddress = Some ''192.168.1.20'', dstPort = Some 50000\<rparr>],
               emitted := [Search ''urn:test:1'' (decoded_search ''urn:test:1'') ep_remote ep_local]\<rparr> \<and>
        map_of (headers r) =
          [''location'' \<mapsto> ''http://192.168.1.10/d.xml'', ''st'' \<mapsto> ''urn:test:1'',
           ''usn'' \<mapsto> ''uuid:U1::urn:test:1'']"
    by blast
  have dec: "Search_decode (search_text discover_man ''ssdp:all'') (address ep_remote) (eport ep_remote) =
     Inr (decoded_search ''ssdp:all'')"
    by (simp add: Search_decode_def search_text_def new_Search_def ep_remote_def
        decoded_search_def discover_man_def codec_defs)
  have a: "uuid adv_all = ''U1''" "authenticationProvider adv_all (address ep_remote)"
    "sent adv_all = []" "emitted adv_all = []" "\<And>ob. transport adv_all ob = []"
    "map_of (services adv_all) ''ssdp:all'' = Some []"
    by (simp_all add: adv_all_def adv0_def)
  have u2: "isValidHeaderValue (uuid adv_all)" by (simp add: a isValidHeaderValue_def)
  have o2: "''ssdp:all'' \<noteq> ''upnp:rootdevice''" "''ssdp:all'' \<noteq> ''uuid:'' @ uuid adv_all"
    by simp_all
  have tab: "''ssdp:all'' = ''ssdp:all'' \<longrightarrow>
       list_all (\<lambda>(s, hs). isValidHeaderValue s \<and> wf_headers hs) (services adv_all)"
    using wf by (simp add: adv_all_def isValidHeaderValue_def)
  from service_reply [OF dec example_facts(1,2,3) a(2) a(6) wf(2) u2 o2 tab, of ep_local False]
  obtain r obs where
    "Advertiser_receive (search_text discover_man ''ssdp:all'') ep_local ep_remote False adv_all =
       adv_all\<lparr>sent := sent adv_all @ obs,
            emitted := emitted adv_all @ Search ''ssdp:all'' (decoded_search ''ssdp:all'') ep_remote ep_local #
               concat (map (\<lambda>ob. map AdvError (transport adv_all ob)) obs)\<rparr>"
    "\<lparr>message = r, dstAddress = Some (host (decoded_search ''ssdp:all'')),
                                  dstPort = Some (port (decoded_search ''ssdp:all''))\<rparr> \<in> set obs"
    "map_of (headers r) =
       (map_of (map (\<lambda>(k, v). (k, js_trim v)) []))
         (''st'' \<mapsto> ''ssdp:all'', ''usn'' \<mapsto> usn (uuid adv_all) ''ssdp:all'')"
    by auto
  then have
    "Advertiser_receive (search_text discover_man ''ssdp:all'') ep_local ep_remote False adv_all =
          adv_all\<lparr>sent := obs,
               emitted := [Search ''ssdp:all'' (decoded_search ''ssdp:all'') ep_remote ep_local]\<rparr> \<and>
        \<lparr>message = r, dstAddress = Some ''192.168.1.20'', dstPort = Some 50000\<rparr> \<in> set obs \<and>
        map_of (headers r) = [''st'' \<mapsto> ''ssdp:all'', ''usn'' \<mapsto> ''uuid:U1::ssdp:all'']"
    by (simp add: a example_facts usn_def)
  then have second: "\<exists>r obs. Advertiser_receive (search_text discover_man ''ssdp:all'') ep_local ep_remote False adv_all =
          adv_all\<lparr>sent := obs,
               emitted := [Search ''ssdp:all'' (decoded_search ''ssdp:all'') ep_remote ep_local]\<rparr> \<and>
        \<lparr>message = r, dstAddress = Some ''192.168.1.20'', dstPort = Some 50000\<rparr> \<in> set obs \<and>
        map_of (headers r) = [''st'' \<mapsto> ''ssdp:all'', ''usn'' \<mapsto> ''uuid:U1::ssdp:all'']"
    by blast
  from first second show ?thesis by blast
qed

section \<open>Withdrawing a service\<close>

text \<open>
  C8. If service S is present in the Service Table, \<open>withdraw(S)\<close> removes the entry,
  sends one \<open>ssdp:byebye\<close> notification for S and returns true; if S is absent it
  returns false and changes nothing, so it sends nothing. After any call S is absent, hence
  a second call returns false and sends no byebye. The uuid and S are taken to be text
  that can stand in a header (no NUL, CR or LF), which the sending of the notification
  needs; the statements about the absent service and the second call do not depend on it.
\<close>

theorem withdraw_present_absent:
  assumes "isValidHeaderValue (uuid a)" "isValidHeaderValue S"
  shows
   "(let bye = \<lparr>message = new_Notification\<lparr>headers :=
                   [(''usn'', js_trim (usn (uuid a) S)), (''host'', ''239.255.255.250:1900''),
                    (''nt'', js_trim S), (''nts'', ''ssdp:byebye'')]\<rparr>,
                dstAddress = None, dstPort = None\<rparr>
     in (map_of (services a) S \<noteq> None \<longrightarrow>
          withdraw S a =
            (True, a\<lparr>services := AList.delete S (services a),
                      sent := sent a @ [bye],
                      emitted := emitted a @ map AdvError (transport a bye)\<rparr>))) \<and>
    (map_of (services a) S = None \<longrightarrow> withdraw S a = (False, a)) \<and>
    map_of (services (snd (withdraw S a))) S = None \<and>
    withdraw S (snd (withdraw S a)) = (False, snd (withdraw S a))"
proof -
  have b: "send_goodbye S (a\<lparr>services := AList.delete S (services a)\<rparr>) =
     Fulfilled \<lparr>message = new_Notification\<lparr>headers :=
                   [(''usn'', js_trim (usn (uuid a) S)), (''host'', ''239.255.255.250:1900''),
                    (''nt'', js_trim S), (''nts'', ''ssdp:byebye'')]\<rparr>,
                dstAddress = None, dstPort = None\<rparr>"
    using assms
    by (simp add: send_goodbye_def SSDP_bye_def notification_ok valid_usn const_values)
  have gone: "map_of (services (snd (withdraw S a))) S = None"
    by (simp add: withdraw_def Let_def settle_def AList.delete_conv' split: completion.splits)
  have twice: "withdraw S (snd (withdraw S a)) = (False, snd (withdraw S a))"
    using gone by (simp add: withdraw_def [of S "snd (withdraw S a)"])
  show ?thesis
    using gone twice
    by (simp add: Let_def withdraw_def [of S a] b settle_def)
qed

text \<open>
  The theorem at the Advertiser holding \<open>urn:test:1\<close>: withdrawing it, withdrawing it
  again, and withdrawing a service that was never announced.
\<close>

theorem withdraw_present_absent_witness:
  "withdraw ''urn:test:1'' adv1 =
     (True, adv1\<lparr>services := [],
                 sent := [\<lparr>message = new_Notification\<lparr>headers :=
                            [(''usn'', ''uuid:U1::urn:test:1''), (''host'', ''239.255.255.250:1900''),
                             (''nt'', ''urn:test:1''), (''nts'', ''ssdp:byebye'')]\<rparr>,
                          dstAddress = None, dstPort = None\<rparr>],
                 emitted := []\<rparr>) \<and>
   withdraw ''urn:test:1'' (snd (withdraw ''urn:test:1'' adv1)) = (False, snd (withdraw ''urn:test:1'' adv1)) \<and>
   withdraw ''urn:test:2'' adv1 = (False, adv1)"
proof -
  have u: "isValidHeaderValue (uuid adv1)" by (simp add: adv_facts)
  have s: "isValidHeaderValue ''urn:test:1''" "isValidHeaderValue ''urn:test:2''"
    by (simp_all add: isValidHeaderValue_def)
  have t: "js_trim ''urn:test:1'' = ''urn:test:1''"
    "js_trim (usn ''U1'' ''urn:test:1'') = ''uuid:U1::urn:test:1''"
    by (simp_all add: js_trim_def js_ws_def usn_def)
  have 1: "withdraw ''urn:test:1'' adv1 =
     (True, adv1\<lparr>services := [],
                 sent := [\<lparr>message = new_Notification\<lparr>headers :=
                            [(''usn'', ''uuid:U1::urn:test:1''), (''host'', ''239.255.255.250:1900''),
                             (''nt'', ''urn:test:1''), (''nts'', ''ssdp:byebye'')]\<rparr>,
                          dstAddress = None, dstPort = None\<rparr>],
                 emitted := []\<rparr>)"
    using withdraw_present_absent [OF u s(1)] by (simp add: Let_def adv_facts t)
  have 2: "withdraw ''urn:test:1'' (snd (withdraw ''urn:test:1'' adv1)) =
      (False, snd (withdraw ''urn:test:1'' adv1))"
    using withdraw_present_absent [OF u s(1)] by blast
  have 3: "withdraw ''urn:test:2'' adv1 = (False, adv1)"
    using withdraw_present_absent [OF u s(2)] by (simp add: adv_facts)
  from 1 2 3 show ?thesis by blast
qed

section \<open>The destroyed flag\<close>

text \<open>
  C3, as stated, fails: after \<open>destroy()\<close>, \<open>announce\<close> of a new service still adds
  it to the Service Table and hands an \<open>ssdp:alive\<close> notification to the socket.
\<close>

theorem destroyed_noop_counterexample:
  "isDestroyed (destroy adv0) \<and> services (destroy adv0) = [] \<and>
   \<not> isl (announce ''urn:test:1'' (HeadersRecord []) (destroy adv0)) \<and>
   services (projr (announce ''urn:test:1'' (HeadersRecord []) (destroy adv0))) =
     [(''urn:test:1'', [(''usn'', ''uuid:U1::urn:test:1'')])] \<and>
   length (sent (projr (announce ''urn:test:1'' (HeadersRecord []) (destroy adv0)))) =
     length (sent (destroy adv0)) + 1"
proof -
  have s: "\<And>c a. services (settle c a) = services a" "\<And>c a. uuid (settle c a) = uuid a"
    by (simp_all add: settle_def split: completion.splits)
  have w: "\<And>cs es a. services (await_all cs es a) = services a \<and> uuid (await_all cs es a) = uuid a"
  proof -
    fix cs es a
    show "services (await_all cs es a) = services a \<and> uuid (await_all cs es a) = uuid a"
      by (induction cs es a rule: await_all.induct) simp_all
  qed
  have d: "isDestroyed (destroy adv0)" using destroy_idem by blast
  have sv: "services (destroy adv0) = []" "uuid (destroy adv0) = ''U1''"
    by (simp_all add: destroy_def send_goodbyes_def w adv_facts)
  have h: "Headers_set ''USN'' (usn ''U1'' ''urn:test:1'') [] = Inr [(''usn'', ''uuid:U1::urn:test:1'')]"
    by (simp add: usn_def codec_defs)
  have n: "SSDP_notify ''urn:test:1'' (HeadersObject [(''usn'', ''uuid:U1::urn:test:1'')]) =
     Fulfilled \<lparr>message = new_Notification\<lparr>headers :=
         [(''usn'', ''uuid:U1::urn:test:1''), (''host'', ''239.255.255.250:1900''),
          (''nt'', ''urn:test:1''), (''nts'', ''ssdp:alive'')]\<rparr>, dstAddress = None, dstPort = None\<rparr>"
    by (simp add: SSDP_notify_def send_notification_def to_Headers_def forEach_single
          setHeader_def sendMessage_def as_payload_def new_Notification_def codec_defs Let_def)
  have a: "announce ''urn:test:1'' (HeadersRecord []) (destroy adv0) =
     Inr ((settle (SSDP_notify ''urn:test:1'' (HeadersObject [(''usn'', ''uuid:U1::urn:test:1'')])) (destroy adv0))
            \<lparr>services := [(''urn:test:1'', [(''usn'', ''uuid:U1::urn:test:1'')])]\<rparr>)"
    by (simp add: announce_def to_Headers_def sv h s)
  show ?thesis
    using d sv(1) by (simp add: a n settle_def)
qed

text \<open>
  C3, amended. \<open>destroy()\<close> sets the destroyed flag, and on an Advertiser whose flag is
  set \<open>destroy()\<close> is a no-op: it sends no goodbyes and does not enter destruction again.
  \<open>announce\<close>, \<open>withdraw\<close> and \<open>announceNow\<close> do not read the flag: on a destroyed
  Advertiser they do to the Service Table and hand to the socket what they do on a live
  one.
\<close>

theorem destroyed_flag_guards_destroy_only:
  "isDestroyed (destroy a) \<and>
   (isDestroyed a \<longrightarrow> destroy a = a) \<and>
   announce S i (a\<lparr>isDestroyed := d\<rparr>) =
     map_sum id (\<lambda>a'. a'\<lparr>isDestroyed := d\<rparr>) (announce S i a) \<and>
   withdraw S (a\<lparr>isDestroyed := d\<rparr>) = apsnd (\<lambda>a'. a'\<lparr>isDestroyed := d\<rparr>) (withdraw S a) \<and>
   announceNow (a\<lparr>isDestroyed := d\<rparr>) = apsnd (\<lambda>a'. a'\<lparr>isDestroyed := d\<rparr>) (announceNow a)"
  using destroy_idem ops_ignore_flag by blast

text \<open>
  The theorem at the Advertiser \<open>adv0\<close> once destroyed: the second \<open>destroy()\<close>
  leaves the two goodbyes of the first as the only messages sent.
\<close>

theorem destroyed_flag_guards_destroy_only_witness:
  "isDestroyed (destroy adv0) \<and> destroy (destroy adv0) = destroy adv0 \<and>
   length (sent (destroy (destroy adv0))) = 2"
proof -
  have b: "SSDP_bye ''uuid:U1'' (HeadersRecord [(''USN'', ''uuid:U1'')]) =
      Fulfilled \<lparr>message = new_Notification\<lparr>headers :=
         [(''usn'', ''uuid:U1''), (''host'', ''239.255.255.250:1900''),
          (''nt'', ''uuid:U1''), (''nts'', ''ssdp:byebye'')]\<rparr>, dstAddress = None, dstPort = None\<rparr>"
    "SSDP_bye ''upnp:rootdevice'' (HeadersRecord [(''USN'', ''uuid:U1::upnp:rootdevice'')]) =
      Fulfilled \<lparr>message = new_Notification\<lparr>headers :=
         [(''usn'', ''uuid:U1::upnp:rootdevice''), (''host'', ''239.255.255.250:1900''),
          (''nt'', ''upnp:rootdevice''), (''nts'', ''ssdp:byebye'')]\<rparr>, dstAddress = None, dstPort = None\<rparr>"
    by (simp_all add: SSDP_bye_def notification_ok isValidHeaderValue_def js_trim_def js_ws_def)
  have l: "length (sent (destroy adv0)) = 2"
    by (simp add: destroy_def send_goodbyes_def adv_facts adv0_def usn_def b)
  have d: "isDestroyed (destroy adv0)"
    using destroyed_flag_guards_destroy_only [of adv0] by blast
  show ?thesis
    using destroyed_flag_guards_destroy_only [of "destroy adv0"] d l by simp
qed

section \<open>The wait time of a search\<close>

text \<open>
  C10, as stated, fails: \<open>search\<close> is an \<open>async\<close> function, so with a wait time
  outside 1..5 it does not throw to its caller; it returns a rejected promise.
\<close>

theorem search_wait_time_counterexample:
  "SSDP_search ''urn:test:1'' 0 (HeadersRecord []) = Rejected (InvalidWaitTime 0) \<and>
   SSDP_search ''urn:test:1'' 0 (HeadersRecord []) \<noteq> Thrown (InvalidWaitTime 0)"
  by (simp add: SSDP_search_def)

text \<open>
  C10, amended. \<open>search(serviceType, wait_time, headers)\<close> returns a promise rejected
  with the error, sending nothing, whenever \<open>wait_time < 1\<close> or \<open>wait_time > 5\<close>. For
  every wait time in 1..5, every service type that can stand in a header (no NUL, CR or
  LF) and every well-formed header set, it is not rejected, and the outgoing Search, sent
  to the multicast group, carries MX set to the wait time, MAN set to
  \<open>"ssdp:discover"\<close> and ST set to the service type trimmed of outer white space.
\<close>

theorem search_wait_time:
  "(w < 1 \<or> w > 5 \<longrightarrow> SSDP_search S w init = Rejected (InvalidWaitTime w)) \<and>
   (1 \<le> w \<and> w \<le> 5 \<and> isValidHeaderValue S \<and> to_Headers init = Inr hs \<and> wf_headers hs \<longrightarrow>
      (\<exists>m. SSDP_search S w init = Fulfilled \<lparr>message = m, dstAddress = None, dstPort = None\<rparr> \<and>
           method_kind m = M_SEARCH \<and>
           Headers_get ''MX'' (headers m) = Some (number_toString w) \<and>
           Headers_get ''MAN'' (headers m) = Some discover_man \<and>
           Headers_get ''ST'' (headers m) = Some (js_trim S)))"
proof (intro conjI impI)
  assume "w < 1 \<or> w > 5"
  then show "SSDP_search S w init = Rejected (InvalidWaitTime w)"
    by (auto simp add: SSDP_search_def)
next
  assume a: "1 \<le> w \<and> w \<le> 5 \<and> isValidHeaderValue S \<and> to_Headers init = Inr hs \<and> wf_headers hs"
  then have w: "\<not> (w < 1 \<or> w > 5)" and S: "isValidHeaderValue S"
    and i: "to_Headers init = Inr hs" and wf: "wf_headers hs" by auto
  from a have n: "isValidHeaderValue (number_toString w)"
    "js_trim (number_toString w) = number_toString w"
    using small_numbers by blast+
  let ?kvs = "Headers_forEach hs @
      [(''MAN'', discover_man), (''HOST'', ''239.255.255.250:1900''), (''ST'', S),
       (''MX'', number_toString w)]"
  let ?m0 = "new_Search ''239.255.255.250'' 1900"
  let ?h1 = "fold put ?kvs []"
  let ?m1 = "?m0\<lparr>headers := ?h1\<rparr>"
  have ok: "list_all (\<lambda>(k, v). isValidHeaderName k \<and> isValidHeaderValue v) ?kvs"
    using copy_wf(1) [OF wf] S n by (simp add: const_names const_values)
  have s1: "setHeaders ?kvs ?m0 = Inr ?m1"
    by (simp add: setHeaders_ok [OF ok] new_Search_def)
  have look: "map_of ?h1 ''mx'' = Some (number_toString w)"
    "map_of ?h1 ''man'' = Some discover_man"
    "map_of ?h1 ''st'' = Some (js_trim S)"
    using n by (simp_all add: put_map_of const_names const_values)
  have ext: "setHeader ''EXT'' [] ?m1 = Inr (?m1\<lparr>headers := AList.update ''ext'' (js_trim []) ?h1\<rparr>)"
    by (simp add: setHeader_ok const_names isValidHeaderValue_def)
  define m where "m = as_payload (if \<not> hasHeader ''EXT'' ?m1
        then ?m1\<lparr>headers := AList.update ''ext'' (js_trim []) ?h1\<rparr> else ?m1)"
  have r: "SSDP_search S w init = Fulfilled \<lparr>message = m, dstAddress = None, dstPort = None\<rparr>"
    unfolding SSDP_search_def m_def using w i s1 ext
    by (simp add: sendMessage_def del: setHeaders.simps fold_append fold_simps)
  have k: "method_kind m = M_SEARCH"
    by (simp add: m_def as_payload_def new_Search_def)
  have g: "Headers_get ''MX'' (headers m) = Some (number_toString w)"
    "Headers_get ''MAN'' (headers m) = Some discover_man"
    "Headers_get ''ST'' (headers m) = Some (js_trim S)"
    using look
    by (simp_all add: m_def as_payload_def Headers_get_def const_names AList.update_conv'
          del: fold_append fold_simps)
  from r k g show "\<exists>m. SSDP_search S w init = Fulfilled \<lparr>message = m, dstAddress = None, dstPort = None\<rparr> \<and>
           method_kind m = M_SEARCH \<and>
           Headers_get ''MX'' (headers m) = Some (number_toString w) \<and>
           Headers_get ''MAN'' (headers m) = Some discover_man \<and>
           Headers_get ''ST'' (headers m) = Some (js_trim S)"
    by blast
qed

text \<open>
  The theorem at the wait times 3, 6 and 0.
\<close>

theorem search_wait_time_witness:
  "(\<exists>m. SSDP_search ''urn:test:1'' 3 (HeadersRecord []) =
          Fulfilled \<lparr>message = m, dstAddress = None, dstPort = None\<rparr> \<and>
        method_kind m = M_SEARCH \<and>
        Headers_get ''MX'' (headers m) = Some ''3'' \<and>
        Headers_get ''MAN'' (headers m) = Some discover_man \<and>
        Headers_get ''ST'' (headers m) = Some ''urn:test:1'') \<and>
   SSDP_search ''urn:test:1'' 6 (HeadersRecord []) = Rejected (InvalidWaitTime 6) \<and>
   SSDP_search ''urn:test:1'' 0 (HeadersRecord []) = Rejected (InvalidWaitTime 0)"
proof -
  have v: "isValidHeaderValue ''urn:test:1''" by (simp add: isValidHeaderValue_def)
  have i: "to_Headers (HeadersRecord []) = Inr []" by (simp add: to_Headers_def)
  have wf: "wf_headers []" by (simp add: wf_headers_def)
  have t: "js_trim ''urn:test:1'' = ''urn:test:1''" "number_toString 3 = ''3''"
    by (simp_all add: js_trim_def js_ws_def number_toString_digit)
  have 1: "\<exists>m. SSDP_search ''urn:test:1'' 3 (HeadersRecord []) =
          Fulfilled \<lparr>message = m, dstAddress = None, dstPort = None\<rparr> \<and>
        method_kind m = M_SEARCH \<and>
        Headers_get ''MX'' (headers m) = Some ''3'' \<and>
        Headers_get ''MAN'' (headers m) = Some discover_man \<and>
        Headers_get ''ST'' (headers m) = Some ''urn:test:1''"
    using search_wait_time [of 3 "''urn:test:1''" "HeadersRecord []" "[]"] v i wf
    by (simp add: t)
  have 2: "SSDP_search ''urn:test:1'' 6 (HeadersRecord []) = Rejected (InvalidWaitTime 6)"
    using search_wait_time [of 6 "''urn:test:1''" "HeadersRecord []" "[]"] by simp
  have 3: "SSDP_search ''urn:test:1'' 0 (HeadersRecord []) = Rejected (InvalidWaitTime 0)"
    using search_wait_time [of 0 "''urn:test:1''" "HeadersRecord []" "[]"] by simp
  from 1 2 3 show ?thesis by blast
qed

section \<open>Encoding\<close>




section \<open>Decoding\<close>

text \<open>
  C4, as stated, fails: the value is not the text to the right of the first colon altered
  by outer trimming only. The line \<open>SERVER: a : b\<close> decodes to the value \<open>a:b\<close>,
  where the words of the claim give \<open>a : b\<close>.
\<close>

theorem decode_first_colon_counterexample:
  "Payload_decode spaced_colon_text = Inr [(''server'', ''a:b'')] \<and>
   decode_claimed spaced_colon_text = Inr [(''server'', ''a : b'')]"
  by (simp add: spaced_colon_text_def decode_claimed_def body_lines_def claimed_pair_def
        first_colon_def List.map_filter_simps codec_defs)

text \<open>
  C4, amended. Payload decoding discards the first line, splits the remaining text on
  newline, trims each line and discards the blank lines. A line without a colon, or with
  only white space before its first colon, is skipped. For any other line the text before
  the first colon, trimmed and uppercased, is the key, and the text after the first colon,
  with the white space around each of its colons and at its two ends removed, is the value.
  The pairs are written in order with \<open>Headers.set\<close> into a fresh header set, so that a
  later line with the same key overwrites an earlier one, and decoding throws when
  \<open>Headers.set\<close> rejects a key or a value.
\<close>

theorem decode_as_amended:
  "Payload_decode text = decode_amended text"
  by (simp add: Payload_decode_def decode_amended_def body_lines_def decode_lines_amended)

text \<open>
  The theorem at the text with the line \<open>SERVER: a : b\<close>.
\<close>

theorem decode_as_amended_witness:
  "Payload_decode spaced_colon_text = decode_amended spaced_colon_text \<and>
   decode_amended spaced_colon_text = Inr [(''server'', ''a:b'')]"
proof -
  have "Payload_decode spaced_colon_text = Inr [(''server'', ''a:b'')]"
    by (simp add: spaced_colon_text_def codec_defs)
  then show ?thesis
    using decode_as_amended [of spaced_colon_text] by simp
qed

section \<open>Decoding an encoded message\<close>

text \<open>
  C1, as stated, fails: a Reply given the header SERVER with the value \<open>a : b\<close> encodes
  to a text that decodes to the value \<open>a:b\<close>.
\<close>

theorem header_round_trip_counterexample:
  "setHeader ''SERVER'' ''a : b'' new_Reply = Inr spaced_reply \<and>
   wf_headers (headers spaced_reply) \<and>
   Reply_decode (toString compare_code_units spaced_reply) =
     Inr (new_Reply\<lparr>headers := [(''server'', ''a:b'')]\<rparr>) \<and>
   map_of [(''server'', ''a:b'')] ''server'' \<noteq> map_of (headers spaced_reply) ''server''"
  by (simp add: spaced_reply_def setHeader_def new_Reply_def wf_headers_def Reply_decode_def
        toString_def Headers_forEach_def sort_by_def first_line_def header_line_def codec_defs)

text \<open>
  C1, amended. For every message (Search, Notification or Reply) carrying a header mapping
  H, decoding the text produced by encoding that message, with the decode of any message
  kind, succeeds and yields a header set with the keys of H (compared without regard to
  case) in which each value is the value of H with the white space around each of its
  colons and at its two ends removed. The decoded header set equals H whenever no value of
  H has such white space.
\<close>

theorem header_round_trip:
  assumes wf: "wf_headers (headers m)"
  shows "\<exists>hs. Payload_decode (toString cmp m) = Inr hs \<and>
          map_of hs = map_of (map (\<lambda>(k, v). (k, colon_trim v)) (headers m)) \<and>
          Search_decode (toString cmp m) h n = Inr ((new_Search h n)\<lparr>headers := hs\<rparr>) \<and>
          Notification_decode (toString cmp m) = Inr (new_Notification\<lparr>headers := hs\<rparr>) \<and>
          Reply_decode (toString cmp m) = Inr (new_Reply\<lparr>headers := hs\<rparr>) \<and>
          ((\<forall>e \<in> set (headers m). colon_trim (snd e) = snd e) \<longrightarrow> map_of hs = map_of (headers m))"
proof -
  let ?H = "headers m"
  let ?es = "sort_by (\<lambda>a b. cmp (fst a) (fst b)) (Headers_forEach ?H)"
  let ?G = "\<lambda>e. (fst e, colon_trim (snd e))"
  let ?hs = "fold (\<lambda>e. AList.update (fst e) (colon_trim (snd e))) ?es []"
  have set_es: "set ?es = set ?H" by (simp add: sort_by_set forEach_set)
  have dist_es: "distinct (map fst ?es)"
    using wf by (simp add: sort_by_distinct_fst forEach_distinct wf_headers_def)
  have all: "list_all wf_entry ?es"
    using wf unfolding list_all_iff set_es wf_headers_def wf_entry_def by auto
  have "toString cmp m = js_join CRLF ((first_line (method_kind m) # map header_line ?es) @ [CRLF])"
    by (simp add: toString_def)
  then have d: "Payload_decode (toString cmp m) = Inr ?hs"
    by (simp only: Payload_decode_def wire_body_lines [OF all] wire_lines_decode [OF all])
  have fG: "map fst (map ?G ?es) = map fst ?es" "map fst (map ?G ?H) = map fst ?H"
    by (simp_all add: comp_def)
  have d1: "distinct (map fst (rev (map ?G ?es)))"
    using dist_es by (simp only: rev_map [symmetric] fG distinct_rev map_map [symmetric])
  have d2: "distinct (map fst (map ?G ?H))"
    using wf unfolding fG by (simp add: wf_headers_def)
  have s: "set (rev (map ?G ?es)) = set (map ?G ?H)" by (simp add: set_es)
  have "map_of ?hs = map_of (rev (map ?G ?es))" by (simp add: fold_update_map_of)
  also have "\<dots> = map_of (map ?G ?H)" using d2 s d1 by (rule map_of_perm)
  also have "map ?G ?H = map (\<lambda>(k, v). (k, colon_trim v)) ?H"
    by (simp add: case_prod_beta)
  finally have mo: "map_of ?hs = map_of (map (\<lambda>(k, v). (k, colon_trim v)) ?H)" .
  have same: "map_of ?hs = map_of ?H" if "\<forall>e \<in> set ?H. colon_trim (snd e) = snd e"
  proof -
    from that have "map (\<lambda>(k, v). (k, colon_trim v)) ?H = ?H"
      by (intro map_idI) (auto split: prod.splits)
    with mo show ?thesis by simp
  qed
  show ?thesis
    using d mo same
    by (intro exI [of _ ?hs]) (simp add: Search_decode_def Notification_decode_def Reply_decode_def)
qed

text \<open>
  The theorem at a Reply with the headers ST and LOCATION, whose values carry colons but no
  white space.
\<close>

theorem header_round_trip_witness:
  "wf_headers (headers example_reply) \<and>
   map snd (headers example_reply) = [''urn:test:1'', ''http://192.168.1.10/d.xml''] \<and>
   colon_trim ''urn:test:1'' = ''urn:test:1'' \<and>
   colon_trim ''http://192.168.1.10/d.xml'' = ''http://192.168.1.10/d.xml'' \<and>
   (\<exists>hs. Reply_decode (toString compare_code_units example_reply) = Inr (new_Reply\<lparr>headers := hs\<rparr>) \<and>
         map_of hs = map_of (headers example_reply))"
proof -
  have wf: "wf_headers (headers example_reply)"
    by (simp add: example_reply_def new_Reply_def wf_headers_def codec_defs)
  have vs: "map snd (headers example_reply) = [''urn:test:1'', ''http://192.168.1.10/d.xml'']"
    by (simp add: example_reply_def new_Reply_def)
  have c: "colon_trim ''urn:test:1'' = ''urn:test:1''"
    "colon_trim ''http://192.168.1.10/d.xml'' = ''http://192.168.1.10/d.xml''"
    by (simp_all add: colon_trim_def js_trim_def js_ws_def)
  have ct: "\<forall>e \<in> set (headers example_reply). colon_trim (snd e) = snd e"
    using c by (simp add: example_reply_def new_Reply_def)
  show ?thesis
    using header_round_trip [OF wf, of compare_code_units] wf vs c ct by blast
qed

end
